theory Spec2Isabelle
  imports Main "HOL-Library.Word"
begin

section \<open>Memory, faults and machine integers\<close>

text \<open>
  The storage backend of \<^verbatim>\<open>field_storage_backend.h\<close> treats an element of type \<open>T\<close> as
  \<open>sizeof(T)\<close> raw bytes.  A byte of memory is either indeterminate (fresh from
  \<^verbatim>\<open>malloc\<close>, or the content of an uninitialised local such as \<^verbatim>\<open>T value;\<close>) or holds
  eight bits.
\<close>

datatype memval = Undef | Byte "8 word"

text \<open>
  What ends a call abnormally: an access outside the object a pointer refers to (or
  through the null pointer), a failed \<^verbatim>\<open>assert\<close>, a signed overflow in \<^verbatim>\<open>int\<close>
  arithmetic, and \<^verbatim>\<open>exit(n)\<close> after a message on standard output.
\<close>

datatype fault =
    Undefined_behaviour
  | Assertion_failed
  | Int_overflow
  | Exit string nat

definition INT_MAX :: int where
  "INT_MAX = 2147483647"

definition INT_MIN :: int where
  "INT_MIN = - 2147483648"

text \<open>The result of an \<^verbatim>\<open>int\<close> operation whose mathematical value is \<open>x\<close>.\<close>

definition int_result :: "int \<Rightarrow> fault + int" where
  "int_result x = (if INT_MIN \<le> x \<and> x \<le> INT_MAX then Inr x else Inl Int_overflow)"

text \<open>
  \<^verbatim>\<open>((E*)p)[i]\<close> read and written, for an object \<open>buf\<close> that \<open>p\<close> points to and an
  element size \<open>sz = sizeof(E)\<close>: the bytes \<open>[i*sz, (i+1)*sz)\<close> of the object.
\<close>

definition load_at :: "memval list \<Rightarrow> nat \<Rightarrow> int \<Rightarrow> fault + memval list" where
  "load_at buf sz i =
     (if 0 \<le> i \<and> (nat i + 1) * sz \<le> length buf
      then Inr (take sz (drop (nat i * sz) buf))
      else Inl Undefined_behaviour)"

definition store_at :: "memval list \<Rightarrow> nat \<Rightarrow> int \<Rightarrow> memval list \<Rightarrow> fault + memval list" where
  "store_at buf sz i v =
     (if 0 \<le> i \<and> (nat i + 1) * sz \<le> length buf
      then Inr (take (nat i * sz) buf @ take sz v @ drop ((nat i + 1) * sz) buf)
      else Inl Undefined_behaviour)"

text \<open>
  \<^verbatim>\<open>for (int j = 0; j < n; j++) body\<close>, from the counter value \<open>j\<close> on.  The body may
  fault; the increment is an \<^verbatim>\<open>int\<close> operation.
\<close>

function for_loop :: "nat \<Rightarrow> nat \<Rightarrow> (nat \<Rightarrow> 's \<Rightarrow> fault + 's) \<Rightarrow> 's \<Rightarrow> fault + 's" where
  "for_loop j n body s =
     (if j < n then
        (case body j s of
           Inl f \<Rightarrow> Inl f
         | Inr s' \<Rightarrow>
             (case int_result (int j + 1) of
                Inl f \<Rightarrow> Inl f
              | Inr _ \<Rightarrow> for_loop (Suc j) n body s'))
      else Inr s)"
  by pat_completeness auto
termination
  by (relation "measure (\<lambda>(j, n, body, s). n - j)") auto

declare for_loop.simps [simp del]

section \<open>The storage object\<close>

text \<open>
  \<^verbatim>\<open>field_storage<T>\<close> owns one buffer through the pointer \<^verbatim>\<open>fieldbuf\<close>: \<open>None\<close> is the
  null pointer, \<open>Some buf\<close> a pointer to a live block with the contents \<open>buf\<close>.
\<close>

record field_storage =
  fieldbuf :: "memval list option"

text \<open>The memory layout is fixed at build time by the macro \<^verbatim>\<open>layout_SOA\<close>.\<close>

datatype layout = AoS | SoA

subsection \<open>Array of structures\<close>

text \<open>
  In all operations \<open>sizeT\<close> is \<open>sizeof(T)\<close> and \<open>sreal\<close> is \<open>sizeof(real_t)\<close>.  The
  parameter \<open>field_alloc_size\<close> is unused in this layout.
\<close>

definition get_aos :: "nat \<Rightarrow> field_storage \<Rightarrow> int \<Rightarrow> int \<Rightarrow> fault + memval list" where
  "get_aos sizeT st i field_alloc_size =
     (case fieldbuf st of
        None \<Rightarrow> Inl Undefined_behaviour
      | Some buf \<Rightarrow> load_at buf sizeT i)"

definition set_aos :: "nat \<Rightarrow> memval list \<Rightarrow> int \<Rightarrow> int \<Rightarrow> field_storage \<Rightarrow> fault + field_storage" where
  "set_aos sizeT v i field_alloc_size st =
     (case fieldbuf st of
        None \<Rightarrow> Inl Undefined_behaviour
      | Some buf \<Rightarrow>
          (case store_at buf sizeT i v of
             Inl f \<Rightarrow> Inl f
           | Inr buf' \<Rightarrow> Inr (st\<lparr>fieldbuf := Some buf'\<rparr>)))"

subsection \<open>Structure of arrays\<close>

definition t_elements :: "nat \<Rightarrow> nat \<Rightarrow> nat" where
  "t_elements sizeT sreal = sizeT div sreal"

text \<open>The index expression \<^verbatim>\<open>e*field_alloc_size + i\<close>, computed in \<^verbatim>\<open>int\<close>.\<close>

definition soa_index :: "nat \<Rightarrow> int \<Rightarrow> int \<Rightarrow> fault + int" where
  "soa_index e field_alloc_size i =
     (case int_result (int e * field_alloc_size) of
        Inl f \<Rightarrow> Inl f
      | Inr p \<Rightarrow> int_result (p + i))"

text \<open>\<^verbatim>\<open>value_f[e] = ((real_t*)fieldbuf)[e*field_alloc_size + i];\<close>\<close>

definition get_soa_body ::
  "nat \<Rightarrow> memval list \<Rightarrow> int \<Rightarrow> int \<Rightarrow> nat \<Rightarrow> memval list \<Rightarrow> fault + memval list" where
  "get_soa_body sreal buf i field_alloc_size e val =
     (case soa_index e field_alloc_size i of
        Inl f \<Rightarrow> Inl f
      | Inr k \<Rightarrow>
          (case load_at buf sreal k of
             Inl f \<Rightarrow> Inl f
           | Inr r \<Rightarrow> store_at val sreal (int e) r))"

text \<open>The local \<^verbatim>\<open>T value;\<close> starts indeterminate.\<close>

definition get_soa :: "nat \<Rightarrow> nat \<Rightarrow> field_storage \<Rightarrow> int \<Rightarrow> int \<Rightarrow> fault + memval list" where
  "get_soa sizeT sreal st i field_alloc_size =
     (if \<not> i < field_alloc_size then Inl Assertion_failed
      else
        (case fieldbuf st of
           None \<Rightarrow>
             (if 0 < t_elements sizeT sreal then Inl Undefined_behaviour
              else Inr (replicate sizeT Undef))
         | Some buf \<Rightarrow>
             for_loop 0 (t_elements sizeT sreal)
               (get_soa_body sreal buf i field_alloc_size) (replicate sizeT Undef)))"

text \<open>\<^verbatim>\<open>((real_t*)fieldbuf)[e*field_alloc_size + i] = value_f[e];\<close>\<close>

definition set_soa_body ::
  "nat \<Rightarrow> memval list \<Rightarrow> int \<Rightarrow> int \<Rightarrow> nat \<Rightarrow> memval list \<Rightarrow> fault + memval list" where
  "set_soa_body sreal v i field_alloc_size e buf =
     (case load_at v sreal (int e) of
        Inl f \<Rightarrow> Inl f
      | Inr r \<Rightarrow>
          (case soa_index e field_alloc_size i of
             Inl f \<Rightarrow> Inl f
           | Inr k \<Rightarrow> store_at buf sreal k r))"

definition set_soa ::
  "nat \<Rightarrow> nat \<Rightarrow> memval list \<Rightarrow> int \<Rightarrow> int \<Rightarrow> field_storage \<Rightarrow> fault + field_storage" where
  "set_soa sizeT sreal v i field_alloc_size st =
     (if \<not> i < field_alloc_size then Inl Assertion_failed
      else
        (case fieldbuf st of
           None \<Rightarrow>
             (if 0 < t_elements sizeT sreal then Inl Undefined_behaviour else Inr st)
         | Some buf \<Rightarrow>
             (case for_loop 0 (t_elements sizeT sreal)
                     (set_soa_body sreal v i field_alloc_size) buf of
                Inl f \<Rightarrow> Inl f
              | Inr buf' \<Rightarrow> Inr (st\<lparr>fieldbuf := Some buf'\<rparr>))))"

subsection \<open>The layout compiled in\<close>

text \<open>
  Exactly one of the two definitions of \<^verbatim>\<open>get\<close> and \<^verbatim>\<open>set\<close> is compiled;
  \<^verbatim>\<open>gather_elements\<close> and \<^verbatim>\<open>place_elements\<close> call whichever it is.
\<close>

definition field_storage_get ::
  "layout \<Rightarrow> nat \<Rightarrow> nat \<Rightarrow> field_storage \<Rightarrow> int \<Rightarrow> int \<Rightarrow> fault + memval list" where
  "field_storage_get lay sizeT sreal st i field_alloc_size =
     (case lay of
        AoS \<Rightarrow> get_aos sizeT st i field_alloc_size
      | SoA \<Rightarrow> get_soa sizeT sreal st i field_alloc_size)"

definition field_storage_set ::
  "layout \<Rightarrow> nat \<Rightarrow> nat \<Rightarrow> memval list \<Rightarrow> int \<Rightarrow> int \<Rightarrow> field_storage
     \<Rightarrow> fault + field_storage" where
  "field_storage_set lay sizeT sreal v i field_alloc_size st =
     (case lay of
        AoS \<Rightarrow> set_aos sizeT v i field_alloc_size st
      | SoA \<Rightarrow> set_soa sizeT sreal v i field_alloc_size st)"

subsection \<open>Allocation and release\<close>

text \<open>
  Modelled from the spec: \<^verbatim>\<open>lattice_struct\<close> is declared outside the files at hand;
  the spec says it exposes the total local allocation size (real and ghost sites).  The
  value is kept as the \<^verbatim>\<open>int\<close> that \<^verbatim>\<open>get\<close> and \<^verbatim>\<open>set\<close> receive.
\<close>

record lattice_struct =
  field_alloc_size :: int

text \<open>A value converted to \<^verbatim>\<open>size_t\<close> (64 bits); products of sizes wrap around.\<close>

definition size_t_of :: "int \<Rightarrow> nat" where
  "size_t_of x = nat (x mod 2 ^ 64)"

definition malloc_request :: "layout \<Rightarrow> nat \<Rightarrow> nat \<Rightarrow> lattice_struct \<Rightarrow> nat" where
  "malloc_request lay sizeT sreal lattice =
     (case lay of
        AoS \<Rightarrow> size_t_of (int sizeT * field_alloc_size lattice)
      | SoA \<Rightarrow> size_t_of (int (t_elements sizeT sreal) * int sreal * field_alloc_size lattice))"

text \<open>
  \<^verbatim>\<open>malloc(n)\<close>: the allocator either has no memory (\<open>available = False\<close>, the null
  pointer) or hands out \<open>n\<close> indeterminate bytes.  The OpenACC pragmas around the
  allocation and the release do not change the host state and are left out.
\<close>

definition malloc :: "bool \<Rightarrow> nat \<Rightarrow> memval list option" where
  "malloc available n = (if available then Some (replicate n Undef) else None)"

definition allocate_field ::
  "layout \<Rightarrow> nat \<Rightarrow> nat \<Rightarrow> bool \<Rightarrow> lattice_struct \<Rightarrow> field_storage \<Rightarrow> fault + field_storage" where
  "allocate_field lay sizeT sreal available lattice st =
     (let st' = st\<lparr>fieldbuf := malloc available (malloc_request lay sizeT sreal lattice)\<rparr>
      in if fieldbuf st' = None
         then Inl (Exit (''Failure in field memory allocation'' @ [CHR 0x0A]) 1)
         else Inr st')"

text \<open>
  \<^verbatim>\<open>free_field\<close> returns the blocks it handed to \<^verbatim>\<open>free\<close> together with the new
  state.  The two layouts have the same text.
\<close>

definition free_field :: "field_storage \<Rightarrow> memval list list \<times> field_storage" where
  "free_field st =
     (let released = (case fieldbuf st of None \<Rightarrow> [] | Some buf \<Rightarrow> [buf])
      in (released, st\<lparr>fieldbuf := None\<rparr>))"

subsection \<open>Packing and unpacking by index list\<close>

text \<open>
  The index list is a \<^verbatim>\<open>std::vector<unsigned>\<close>; each entry is converted to \<^verbatim>\<open>int\<close>
  on the way into \<^verbatim>\<open>get\<close> and \<^verbatim>\<open>set\<close>.  The byte buffer comes as a bare
  \<^verbatim>\<open>char *\<close>; \<open>buffer\<close> is the object it points to.
\<close>

definition gather_body ::
  "layout \<Rightarrow> nat \<Rightarrow> nat \<Rightarrow> field_storage \<Rightarrow> 32 word list \<Rightarrow> lattice_struct
     \<Rightarrow> nat \<Rightarrow> memval list \<Rightarrow> fault + memval list" where
  "gather_body lay sizeT sreal st index_list lattice j buffer =
     (let index = sint (index_list ! j) in
        (case field_storage_get lay sizeT sreal st index (field_alloc_size lattice) of
           Inl f \<Rightarrow> Inl f
         | Inr element \<Rightarrow> store_at buffer sizeT (int j) element))"

definition gather_elements ::
  "layout \<Rightarrow> nat \<Rightarrow> nat \<Rightarrow> field_storage \<Rightarrow> memval list \<Rightarrow> 32 word list \<Rightarrow> lattice_struct
     \<Rightarrow> fault + memval list" where
  "gather_elements lay sizeT sreal st buffer index_list lattice =
     for_loop 0 (length index_list) (gather_body lay sizeT sreal st index_list lattice) buffer"

definition place_body ::
  "layout \<Rightarrow> nat \<Rightarrow> nat \<Rightarrow> memval list \<Rightarrow> 32 word list \<Rightarrow> lattice_struct
     \<Rightarrow> nat \<Rightarrow> field_storage \<Rightarrow> fault + field_storage" where
  "place_body lay sizeT sreal buffer index_list lattice j st =
     (case load_at buffer sizeT (int j) of
        Inl f \<Rightarrow> Inl f
      | Inr element \<Rightarrow>
          field_storage_set lay sizeT sreal element (sint (index_list ! j))
            (field_alloc_size lattice) st)"

definition place_elements ::
  "layout \<Rightarrow> nat \<Rightarrow> nat \<Rightarrow> memval list \<Rightarrow> 32 word list \<Rightarrow> lattice_struct \<Rightarrow> field_storage
     \<Rightarrow> fault + field_storage" where
  "place_elements lay sizeT sreal buffer index_list lattice st =
     for_loop 0 (length index_list) (place_body lay sizeT sreal buffer index_list lattice) st"

subsection \<open>Local boundary elements\<close>

text \<open>
  Modelled from the spec: the enumerations \<^verbatim>\<open>direction\<close> and \<^verbatim>\<open>parity\<close> are declared
  outside the files at hand; the constructors are the ones the sources use (\<open>ALL\<close> is
  written \<open>ALL_parity\<close>, the plain name being taken by the quantifier).
\<close>

datatype direction = XUP | YUP | ZUP | TUP | TDOWN | ZDOWN | YDOWN | XDOWN

datatype parity = EVEN | ODD | ALL_parity

text \<open>In this backend the body is empty.\<close>

definition set_local_boundary_elements ::
  "direction \<Rightarrow> parity \<Rightarrow> lattice_struct \<Rightarrow> field_storage \<Rightarrow> field_storage" where
  "set_local_boundary_elements dir par lattice st = st"

section \<open>Notions used to state the properties\<close>

text \<open>
  The number of bytes a storage for \<open>field_alloc_size\<close> elements takes in each layout,
  and the storages that hold a block of exactly that size.
\<close>

definition storage_bytes :: "layout \<Rightarrow> nat \<Rightarrow> nat \<Rightarrow> int \<Rightarrow> nat" where
  "storage_bytes lay sizeT sreal fas =
     (case lay of
        AoS \<Rightarrow> sizeT * nat fas
      | SoA \<Rightarrow> t_elements sizeT sreal * sreal * nat fas)"

definition allocated :: "layout \<Rightarrow> nat \<Rightarrow> nat \<Rightarrow> lattice_struct \<Rightarrow> field_storage \<Rightarrow> bool" where
  "allocated lay sizeT sreal lattice st =
     (case fieldbuf st of
        None \<Rightarrow> False
      | Some buf \<Rightarrow> length buf = storage_bytes lay sizeT sreal (field_alloc_size lattice))"

text \<open>
  The machine ranges a build respects: \<open>sizeof(real_t)\<close> is positive, the allocation
  size is an \<^verbatim>\<open>int\<close>, and in the structure-of-arrays layout the number of scalars of
  the whole field is an \<^verbatim>\<open>int\<close> too (the index \<^verbatim>\<open>e*field_alloc_size + i\<close> is computed
  in that type).
\<close>

definition machine_ranges :: "layout \<Rightarrow> nat \<Rightarrow> nat \<Rightarrow> lattice_struct \<Rightarrow> bool" where
  "machine_ranges lay sizeT sreal lattice =
     (0 < sreal \<and> field_alloc_size lattice \<le> INT_MAX \<and>
      (case lay of
         AoS \<Rightarrow> True
       | SoA \<Rightarrow> int (t_elements sizeT sreal) * field_alloc_size lattice \<le> INT_MAX))"

text \<open>The element index is one of the storage.\<close>

definition valid_index :: "lattice_struct \<Rightarrow> int \<Rightarrow> bool" where
  "valid_index lattice i = (0 \<le> i \<and> i < field_alloc_size lattice)"

text \<open>
  A client program: a sequence of \<^verbatim>\<open>set\<close> and \<^verbatim>\<open>get\<close> calls on one storage.  It
  yields the values its \<^verbatim>\<open>get\<close> calls returned, or the fault that ended it.
\<close>

datatype call = Set "memval list" int | Get int

fun run_calls ::
  "layout \<Rightarrow> nat \<Rightarrow> nat \<Rightarrow> lattice_struct \<Rightarrow> call list \<Rightarrow> field_storage
     \<Rightarrow> fault + memval list list" where
  "run_calls lay sizeT sreal lattice [] st = Inr []"
| "run_calls lay sizeT sreal lattice (Get i # cs) st =
     (case field_storage_get lay sizeT sreal st i (field_alloc_size lattice) of
        Inl f \<Rightarrow> Inl f
      | Inr v \<Rightarrow>
          (case run_calls lay sizeT sreal lattice cs st of
             Inl f \<Rightarrow> Inl f
           | Inr vs \<Rightarrow> Inr (v # vs)))"
| "run_calls lay sizeT sreal lattice (Set v i # cs) st =
     (case field_storage_set lay sizeT sreal v i (field_alloc_size lattice) st of
        Inl f \<Rightarrow> Inl f
      | Inr st' \<Rightarrow> run_calls lay sizeT sreal lattice cs st')"

fun valid_call :: "nat \<Rightarrow> lattice_struct \<Rightarrow> call \<Rightarrow> bool" where
  "valid_call sizeT lattice (Get i) = valid_index lattice i"
| "valid_call sizeT lattice (Set v i) = (valid_index lattice i \<and> length v = sizeT)"

text \<open>
  Every \<^verbatim>\<open>get\<close> of the sequence reads an index that is in \<open>W\<close> or that an earlier
  \<^verbatim>\<open>set\<close> of the sequence wrote.
\<close>

fun reads_written :: "int set \<Rightarrow> call list \<Rightarrow> bool" where
  "reads_written W [] = True"
| "reads_written W (Get i # cs) = (i \<in> W \<and> reads_written W cs)"
| "reads_written W (Set v i # cs) = reads_written (insert i W) cs"

subsection \<open>Closed forms of the buffer operations\<close>

text \<open>
  What the loops of the two layouts compute, written without loops.  \<open>F\<close> is the
  allocation size and \<open>I\<close> the element index, both as natural numbers; \<open>k\<close> counts the
  scalar components already copied.  The structure-of-arrays functions give every byte
  of the result by its position.
\<close>

definition soa_read :: "nat \<Rightarrow> nat \<Rightarrow> nat \<Rightarrow> nat \<Rightarrow> nat \<Rightarrow> memval list \<Rightarrow> memval list" where
  "soa_read sizeT sreal F I k buf =
     map (\<lambda>q. if q div sreal < k then buf ! ((q div sreal * F + I) * sreal + q mod sreal) else Undef)
       [0..<sizeT]"

definition soa_write :: "nat \<Rightarrow> nat \<Rightarrow> nat \<Rightarrow> nat \<Rightarrow> memval list \<Rightarrow> memval list \<Rightarrow> memval list" where
  "soa_write sreal F I k v buf =
     map (\<lambda>p. if (p div sreal) mod F = I \<and> (p div sreal) div F < k
              then v ! ((p div sreal) div F * sreal + p mod sreal) else buf ! p)
       [0..<length buf]"

definition soa_kept :: "nat \<Rightarrow> nat \<Rightarrow> memval list \<Rightarrow> memval list" where
  "soa_kept sizeT sreal v =
     map (\<lambda>q. if q div sreal < sizeT div sreal then v ! q else Undef) [0..<sizeT]"

definition aos_read :: "nat \<Rightarrow> nat \<Rightarrow> memval list \<Rightarrow> memval list" where
  "aos_read sizeT I buf = take sizeT (drop (I * sizeT) buf)"

definition aos_write :: "nat \<Rightarrow> nat \<Rightarrow> memval list \<Rightarrow> memval list \<Rightarrow> memval list" where
  "aos_write sizeT I v buf = take (I * sizeT) buf @ take sizeT v @ drop ((I + 1) * sizeT) buf"

text \<open>The same for the layout compiled in; \<open>kept\<close> is what a stored element reads back as.\<close>

definition elem_at :: "layout \<Rightarrow> nat \<Rightarrow> nat \<Rightarrow> nat \<Rightarrow> nat \<Rightarrow> memval list \<Rightarrow> memval list" where
  "elem_at lay sizeT sreal F I buf =
     (case lay of
        AoS \<Rightarrow> aos_read sizeT I buf
      | SoA \<Rightarrow> soa_read sizeT sreal F I (sizeT div sreal) buf)"

definition with_elem ::
  "layout \<Rightarrow> nat \<Rightarrow> nat \<Rightarrow> nat \<Rightarrow> nat \<Rightarrow> memval list \<Rightarrow> memval list \<Rightarrow> memval list" where
  "with_elem lay sizeT sreal F I v buf =
     (case lay of
        AoS \<Rightarrow> aos_write sizeT I v buf
      | SoA \<Rightarrow> soa_write sreal F I (sizeT div sreal) v buf)"

definition kept :: "layout \<Rightarrow> nat \<Rightarrow> nat \<Rightarrow> memval list \<Rightarrow> memval list" where
  "kept lay sizeT sreal v = (case lay of AoS \<Rightarrow> v | SoA \<Rightarrow> soa_kept sizeT sreal v)"

text \<open>
  The index lists the packing operations are meant for: every entry, an \<^verbatim>\<open>unsigned\<close>,
  is below the allocation size.
\<close>

definition valid_indices :: "lattice_struct \<Rightarrow> 32 word list \<Rightarrow> bool" where
  "valid_indices lattice index_list = list_all (\<lambda>w. uint w < field_alloc_size lattice) index_list"

text \<open>
  The bytes \<^verbatim>\<open>gather_elements\<close> produces for an index list, and the storage contents
  after the first \<open>j\<close> iterations of \<^verbatim>\<open>place_elements\<close>.
\<close>

definition packed ::
  "layout \<Rightarrow> nat \<Rightarrow> nat \<Rightarrow> lattice_struct \<Rightarrow> memval list \<Rightarrow> 32 word list \<Rightarrow> memval list" where
  "packed lay sizeT sreal lattice buf index_list =
     concat (map (\<lambda>w. elem_at lay sizeT sreal (nat (field_alloc_size lattice)) (nat (sint w)) buf)
       index_list)"

fun placed ::
  "layout \<Rightarrow> nat \<Rightarrow> nat \<Rightarrow> lattice_struct \<Rightarrow> memval list \<Rightarrow> 32 word list \<Rightarrow> nat
     \<Rightarrow> memval list \<Rightarrow> memval list" where
  "placed lay sizeT sreal lattice buffer index_list 0 buf = buf"
| "placed lay sizeT sreal lattice buffer index_list (Suc j) buf =
     with_elem lay sizeT sreal (nat (field_alloc_size lattice)) (nat (sint (index_list ! j)))
       (take sizeT (drop (j * sizeT) buffer))
       (placed lay sizeT sreal lattice buffer index_list j buf)"

section \<open>A field over a partitioned lattice\<close>

text \<open>
  Modelled from the spec: the lattice partition, the field class with its loop over
  sites, and the reading and writing of a whole field are outside the files at hand.
  The spec (section 4.1) has the partition assign each global coordinate to exactly one
  partition and one local index within it, without overlap, the local allocation size
  covering every index.  A decomposition is any such assignment: the number of
  partitions, the owner and the local index of a coordinate, and the lattice object of
  each partition.
\<close>

type_synonym coordinate = "int list"

record decomposition =
  n_parts :: nat
  owner :: "coordinate \<Rightarrow> nat"
  local_index :: "coordinate \<Rightarrow> 32 word"
  part_lattice :: "nat \<Rightarrow> lattice_struct"

definition valid_site :: "decomposition \<Rightarrow> coordinate \<Rightarrow> bool" where
  "valid_site d c =
     (owner d c < n_parts d \<and>
      uint (local_index d c) < field_alloc_size (part_lattice d (owner d c)))"

definition site_slot :: "decomposition \<Rightarrow> coordinate \<Rightarrow> nat \<times> 32 word" where
  "site_slot d c = (owner d c, local_index d c)"

definition valid_decomposition :: "coordinate list \<Rightarrow> decomposition \<Rightarrow> bool" where
  "valid_decomposition sites d =
     (list_all (valid_site d) sites \<and> distinct (map (site_slot d) sites))"

text \<open>
  Modelled from the spec: a field is one storage per partition.  Its logical value at a
  coordinate is what \<^verbatim>\<open>get\<close> returns at the coordinate's local index in the owner's
  storage; values are written site by site with \<^verbatim>\<open>set\<close>; the serialised form is the
  sequence of the elements in the canonical order of the coordinates.
\<close>

definition value_at ::
  "layout \<Rightarrow> nat \<Rightarrow> nat \<Rightarrow> decomposition \<Rightarrow> field_storage list \<Rightarrow> coordinate
     \<Rightarrow> fault + memval list" where
  "value_at lay sizeT sreal d stores c =
     field_storage_get lay sizeT sreal (stores ! owner d c) (sint (local_index d c))
       (field_alloc_size (part_lattice d (owner d c)))"

fun store_sites ::
  "layout \<Rightarrow> nat \<Rightarrow> nat \<Rightarrow> decomposition \<Rightarrow> (coordinate \<times> memval list) list
     \<Rightarrow> field_storage list \<Rightarrow> fault + field_storage list" where
  "store_sites lay sizeT sreal d [] stores = Inr stores"
| "store_sites lay sizeT sreal d ((c, v) # rest) stores =
     (case field_storage_set lay sizeT sreal v (sint (local_index d c))
             (field_alloc_size (part_lattice d (owner d c))) (stores ! owner d c) of
        Inl f \<Rightarrow> Inl f
      | Inr st' \<Rightarrow> store_sites lay sizeT sreal d rest (stores[owner d c := st']))"

fun read_sites ::
  "layout \<Rightarrow> nat \<Rightarrow> nat \<Rightarrow> decomposition \<Rightarrow> coordinate list \<Rightarrow> field_storage list
     \<Rightarrow> fault + memval list list" where
  "read_sites lay sizeT sreal d [] stores = Inr []"
| "read_sites lay sizeT sreal d (c # rest) stores =
     (case value_at lay sizeT sreal d stores c of
        Inl f \<Rightarrow> Inl f
      | Inr v \<Rightarrow>
          (case read_sites lay sizeT sreal d rest stores of
             Inl f \<Rightarrow> Inl f
           | Inr vs \<Rightarrow> Inr (v # vs)))"

text \<open>The storages of a field: one per partition, each allocated for its lattice.\<close>

definition field_allocated ::
  "layout \<Rightarrow> nat \<Rightarrow> nat \<Rightarrow> decomposition \<Rightarrow> field_storage list \<Rightarrow> bool" where
  "field_allocated lay sizeT sreal d stores =
     (length stores = n_parts d \<and>
      (\<forall>p < n_parts d.
         machine_ranges lay sizeT sreal (part_lattice d p) \<and>
         allocated lay sizeT sreal (part_lattice d p) (stores ! p)))"

section \<open>Loops and memory accesses\<close>

lemma int_result_ok: "INT_MIN \<le> x \<Longrightarrow> x \<le> INT_MAX \<Longrightarrow> int_result x = Inr x"
  by (simp add: int_result_def)

lemma INT_MIN_le_nat: "INT_MIN \<le> int n"
  by (rule order_trans [of _ 0]) (simp_all add: INT_MIN_def)

lemma for_loop_inv:
  assumes "int n \<le> INT_MAX" and "j \<le> n" and "I j s"
    and step: "\<And>k s. j \<le> k \<Longrightarrow> k < n \<Longrightarrow> I k s \<Longrightarrow> \<exists>s'. body k s = Inr s' \<and> I (Suc k) s'"
  shows "\<exists>s'. for_loop j n body s = Inr s' \<and> I n s'"
  using assms
proof (induction "n - j" arbitrary: j s)
  case 0
  then have "j = n" by simp
  with 0 show ?case by (simp add: for_loop.simps)
next
  case (Suc d)
  then have lt: "j < n" by simp
  from Suc.prems(4) [OF order_refl lt Suc.prems(3)]
  obtain s' where b: "body j s = Inr s'" and i: "I (Suc j) s'" by blast
  have c: "int_result (int j + 1) = Inr (int j + 1)"
    using lt Suc.prems(1) by (intro int_result_ok) (simp_all add: INT_MIN_def)
  have "\<exists>s''. for_loop (Suc j) n body s' = Inr s'' \<and> I n s''"
  proof (rule Suc.hyps(1))
    show "d = n - Suc j" using Suc.hyps(2) by simp
    show "int n \<le> INT_MAX" by fact
    show "Suc j \<le> n" using lt by simp
    show "I (Suc j) s'" by fact
    show "\<exists>s'. body k s = Inr s' \<and> I (Suc k) s'" if "Suc j \<le> k" "k < n" "I k s" for k s
      using that Suc.prems(4) [of k s] by simp
  qed
  then show ?case
    using lt b c by (subst for_loop.simps) simp
qed

lemma for_loop_fault:
  assumes "int n \<le> INT_MAX" and "j \<le> m" and "m < n" and "I j s"
    and step: "\<And>k s. j \<le> k \<Longrightarrow> k < m \<Longrightarrow> I k s \<Longrightarrow> \<exists>s'. body k s = Inr s' \<and> I (Suc k) s'"
    and stop: "\<And>s. I m s \<Longrightarrow> body m s = Inl f"
  shows "for_loop j n body s = Inl f"
  using assms
proof (induction "m - j" arbitrary: j s)
  case 0
  then have "j = m" by simp
  with 0 show ?case by (subst for_loop.simps) simp
next
  case (Suc d)
  then have lt: "j < m" by simp
  from Suc.prems(5) [OF order_refl lt Suc.prems(4)]
  obtain s' where b: "body j s = Inr s'" and i: "I (Suc j) s'" by blast
  have c: "int_result (int j + 1) = Inr (int j + 1)"
    using lt Suc.prems(1,3) by (intro int_result_ok) (simp_all add: INT_MIN_def)
  have "for_loop (Suc j) n body s' = Inl f"
  proof (rule Suc.hyps(1))
    show "d = m - Suc j" using Suc.hyps(2) by simp
    show "int n \<le> INT_MAX" by fact
    show "Suc j \<le> m" using lt by simp
    show "m < n" by fact
    show "I (Suc j) s'" by fact
    show "\<exists>s'. body k s = Inr s' \<and> I (Suc k) s'" if "Suc j \<le> k" "k < m" "I k s" for k s
      using that Suc.prems(5) [of k s] by simp
    show "body m s = Inl f" if "I m s" for s using that Suc.prems(6) by simp
  qed
  then show ?case
    using lt Suc.prems(3) b c by (subst for_loop.simps) simp
qed

lemma load_at_nat:
  "(k + 1) * sz \<le> length buf \<Longrightarrow> load_at buf sz (int k) = Inr (take sz (drop (k * sz) buf))"
  by (simp add: load_at_def)

lemma store_at_nat:
  "(k + 1) * sz \<le> length buf \<Longrightarrow>
   store_at buf sz (int k) v = Inr (take (k * sz) buf @ take sz v @ drop ((k + 1) * sz) buf)"
  by (simp add: store_at_def)

lemma length_poke:
  assumes "(k + 1) * sz \<le> length buf" and "sz \<le> length v"
  shows "length (take (k * sz) buf @ take sz v @ drop ((k + 1) * sz) buf) = length buf"
  using assms by simp

lemma nth_poke:
  assumes "(k + 1) * sz \<le> length buf" and "sz \<le> length v" and "p < length buf"
  shows "(take (k * sz) buf @ take sz v @ drop ((k + 1) * sz) buf) ! p =
         (if k * sz \<le> p \<and> p < (k + 1) * sz then v ! (p - k * sz) else buf ! p)"
proof -
  have m1: "min (length buf) (k * sz) = k * sz" using assms(1) by simp
  have m2: "min (length v) sz = sz" using assms(2) by simp
  consider "p < k * sz" | "k * sz \<le> p" "p < (k + 1) * sz" | "(k + 1) * sz \<le> p"
    by linarith
  then show ?thesis
  proof cases
    case 1
    then show ?thesis using assms(3) by (simp add: nth_append)
  next
    case 2
    then have "p - k * sz < sz" by simp
    with 2 assms(2) show ?thesis by (simp add: nth_append m1 m2)
  next
    case 3
    then have a: "\<not> p < k * sz" and b: "\<not> p - k * sz < sz" by simp_all
    have c: "sz + k * sz + (p - (k * sz + sz)) = p" using 3 by simp
    have d: "sz + k * sz \<le> length buf" using assms(1) by simp
    have "(take (k * sz) buf @ take sz v @ drop ((k + 1) * sz) buf) ! p
            = drop (sz + k * sz) buf ! (p - (k * sz + sz))"
      using a b by (simp add: nth_append m1 m2)
    also have "\<dots> = buf ! p"
      using d c by (simp only: nth_drop)
    finally show ?thesis using 3 by simp
  qed
qed

lemma slot_iff:
  fixes p k sz :: nat
  assumes "0 < sz"
  shows "(k * sz \<le> p \<and> p < (k + 1) * sz) \<longleftrightarrow> p div sz = k"
  by (meson assms div_less_iff_less_mult interval_class.less_inc_imp_less_eq
    le_antisym less_add_one less_eq_div_iff_mult_less_eq)

lemma nth_load:
  assumes "(k + 1) * sz \<le> length buf" and "q < sz"
  shows "take sz (drop (k * sz) buf) ! q = buf ! (k * sz + q)"
  using assms by simp

lemma length_load:
  assumes "(k + 1) * sz \<le> length buf"
  shows "length (take sz (drop (k * sz) buf)) = sz"
  using assms by simp

lemma sint_index:
  fixes w :: "32 word"
  assumes "uint w \<le> INT_MAX"
  shows "sint w = uint w"
proof -
  have "- (2 ^ 31) \<le> uint w" and "uint w < 2 ^ 31"
    using assms by (simp_all add: INT_MAX_def order_trans [OF _ uint_ge_0])
  then have "signed_take_bit 31 (uint w) = uint w"
    by (simp add: signed_take_bit_int_eq_self)
  then show ?thesis by (simp add: sint_uint)
qed


lemma soa_slot_bound:
  fixes k t F I :: nat
  assumes "k < t" and "I < F"
  shows "k * F + I + 1 \<le> t * F"
proof -
  have "k * F + I + 1 \<le> k * F + F" using assms(2) by simp
  also have "\<dots> = (k + 1) * F" by simp
  also have "\<dots> \<le> t * F" using assms(1) by (intro mult_le_mono1) simp
  finally show ?thesis .
qed

lemma soa_index_ok:
  assumes "k < t" and "I < F" and "int t * int F \<le> INT_MAX"
  shows "soa_index k (int F) (int I) = Inr (int (k * F + I))"
proof -
  have b: "k * F + I + 1 \<le> t * F" using assms(1,2) by (rule soa_slot_bound)
  have "int (t * F) \<le> INT_MAX" using assms(3) by simp
  then have 1: "int (k * F) \<le> INT_MAX" and 2: "int (k * F + I) \<le> INT_MAX"
    using b by linarith+
  have 0: "INT_MIN \<le> int (k * F)" "INT_MIN \<le> int (k * F + I)"
    by (rule INT_MIN_le_nat)+
  have 3: "int_result (int k * int F) = Inr (int (k * F))"
    using int_result_ok [OF 0(1) 1] by simp
  have 4: "int_result (int (k * F) + int I) = Inr (int (k * F + I))"
    using int_result_ok [OF 0(2) 2] by simp
  show ?thesis by (simp only: soa_index_def 3 4 sum.case)
qed

lemma soa_slot_in_buf:
  fixes k t F I sreal :: nat
  assumes "k < t" and "I < F"
  shows "(k * F + I + 1) * sreal \<le> t * sreal * F"
proof -
  have "(k * F + I + 1) * sreal \<le> (t * F) * sreal"
    using soa_slot_bound [OF assms] by (rule mult_le_mono1)
  then show ?thesis by (simp add: mult_ac)
qed

lemma div_mod_slot:
  fixes p k sz :: nat
  assumes "p div sz = k"
  shows "p - k * sz = p mod sz"
  using assms by (metis minus_div_mult_eq_mod)

lemma get_soa_step:
  assumes k: "k < sizeT div sreal" and I: "I < F" and sr: "0 < sreal"
    and len: "length buf = sizeT div sreal * sreal * F"
    and ov: "int (sizeT div sreal) * int F \<le> INT_MAX"
  shows "get_soa_body sreal buf (int I) (int F) k (soa_read sizeT sreal F I k buf)
           = Inr (soa_read sizeT sreal F I (Suc k) buf)"
proof -
  let ?val = "soa_read sizeT sreal F I k buf"
  let ?s = "k * F + I"
  let ?r = "take sreal (drop (?s * sreal) buf)"
  have idx: "soa_index k (int F) (int I) = Inr (int ?s)"
    using k I ov by (rule soa_index_ok)
  have inb: "(?s + 1) * sreal \<le> length buf"
    using soa_slot_in_buf [OF k I, of sreal] len by simp
  have ld: "load_at buf sreal (int ?s) = Inr ?r"
    using inb by (rule load_at_nat)
  have lval: "length ?val = sizeT" by (simp add: soa_read_def)
  have "(k + 1) * sreal \<le> sizeT div sreal * sreal"
    using k by (intro mult_le_mono1) simp
  also have "\<dots> \<le> sizeT" by simp
  finally have inv: "(k + 1) * sreal \<le> length ?val" using lval by simp
  have lr: "sreal \<le> length ?r" using inb by simp
  have st: "store_at ?val sreal (int k) ?r
              = Inr (take (k * sreal) ?val @ take sreal ?r @ drop ((k + 1) * sreal) ?val)"
    using inv by (rule store_at_nat)
  have eq: "take (k * sreal) ?val @ take sreal ?r @ drop ((k + 1) * sreal) ?val
              = soa_read sizeT sreal F I (Suc k) buf"
  proof (rule nth_equalityI)
    show "length (take (k * sreal) ?val @ take sreal ?r @ drop ((k + 1) * sreal) ?val)
            = length (soa_read sizeT sreal F I (Suc k) buf)"
      using length_poke [OF inv lr] by (simp add: soa_read_def)
  next
    fix p assume "p < length (take (k * sreal) ?val @ take sreal ?r @ drop ((k + 1) * sreal) ?val)"
    then have p: "p < sizeT" using length_poke [OF inv lr] lval by simp
    then have p': "p < length ?val" using lval by simp
    show "(take (k * sreal) ?val @ take sreal ?r @ drop ((k + 1) * sreal) ?val) ! p
            = soa_read sizeT sreal F I (Suc k) buf ! p"
    proof (cases "p div sreal = k")
      case True
      then have "p - k * sreal = p mod sreal" by (rule div_mod_slot)
      moreover have "p mod sreal < sreal" using sr by simp
      ultimately have "?r ! (p - k * sreal) = buf ! (?s * sreal + p mod sreal)"
        using nth_load [OF inb, of "p mod sreal"] by simp
      then show ?thesis
        using True p nth_poke [OF inv lr p'] slot_iff [OF sr, of k p]
        by (simp add: soa_read_def)
    next
      case False
      then show ?thesis
        using p nth_poke [OF inv lr p'] slot_iff [OF sr, of k p]
        by (auto simp add: soa_read_def less_Suc_eq)
    qed
  qed
  show ?thesis
    by (simp only: get_soa_body_def idx ld st eq sum.case)
qed


lemma soa_read_0: "soa_read sizeT sreal F I 0 buf = replicate sizeT Undef"
  by (simp add: soa_read_def map_replicate_const)

lemma t_le_scalars:
  fixes t F I :: nat
  assumes "I < F" and "int t * int F \<le> INT_MAX"
  shows "int t \<le> INT_MAX"
proof -
  have "1 \<le> F" using assms(1) by simp
  then have "t * 1 \<le> t * F" by (rule mult_le_mono2)
  then have "t \<le> t * F" by simp
  then have "int t \<le> int (t * F)" by (rule of_nat_mono)
  also have "\<dots> = int t * int F" by simp
  finally show ?thesis using assms(2) by simp
qed

lemma get_soa_closed:
  assumes I: "I < F" and sr: "0 < sreal" and buf: "fieldbuf st = Some buf"
    and len: "length buf = sizeT div sreal * sreal * F"
    and ov: "int (sizeT div sreal) * int F \<le> INT_MAX"
  shows "get_soa sizeT sreal st (int I) (int F)
           = Inr (soa_read sizeT sreal F I (sizeT div sreal) buf)"
proof -
  let ?t = "sizeT div sreal"
  have "\<exists>val. for_loop 0 ?t (get_soa_body sreal buf (int I) (int F)) (replicate sizeT Undef) = Inr val
          \<and> val = soa_read sizeT sreal F I ?t buf"
  proof (rule for_loop_inv [where I = "\<lambda>k val. val = soa_read sizeT sreal F I k buf"])
    show "int ?t \<le> INT_MAX" using I ov by (rule t_le_scalars)
    show "0 \<le> ?t" by simp
    show "replicate sizeT Undef = soa_read sizeT sreal F I 0 buf" by (simp add: soa_read_0)
    show "\<exists>s'. get_soa_body sreal buf (int I) (int F) k s = Inr s'
            \<and> s' = soa_read sizeT sreal F I (Suc k) buf"
      if "k < ?t" and "s = soa_read sizeT sreal F I k buf" for k s
      using that get_soa_step [OF that(1) I sr len ov] by simp
  qed
  then show ?thesis
    using I buf by (simp add: get_soa_def t_elements_def)
qed

lemma length_soa_write: "length (soa_write sreal F I k v buf) = length buf"
  by (simp add: soa_write_def)

lemma length_soa_read: "length (soa_read sizeT sreal F I k buf) = sizeT"
  by (simp add: soa_read_def)

lemma soa_write_0: "soa_write sreal F I 0 v buf = buf"
  by (simp add: soa_write_def map_nth)

lemma slot_decompose:
  fixes s k F I :: nat
  assumes "I < F"
  shows "s = k * F + I \<longleftrightarrow> s mod F = I \<and> s div F = k"
proof
  assume "s = k * F + I"
  then show "s mod F = I \<and> s div F = k" using assms by simp
next
  assume "s mod F = I \<and> s div F = k"
  then show "s = k * F + I" using div_mult_mod_eq [of s F] by simp
qed

lemma set_soa_step:
  assumes k: "k < sizeT div sreal" and I: "I < F" and sr: "0 < sreal"
    and len: "length buf = sizeT div sreal * sreal * F"
    and ov: "int (sizeT div sreal) * int F \<le> INT_MAX"
    and lv: "length v = sizeT"
  shows "set_soa_body sreal v (int I) (int F) k (soa_write sreal F I k v buf)
           = Inr (soa_write sreal F I (Suc k) v buf)"
proof -
  let ?b = "soa_write sreal F I k v buf"
  let ?s = "k * F + I"
  let ?r = "take sreal (drop (k * sreal) v)"
  have idx: "soa_index k (int F) (int I) = Inr (int ?s)"
    using k I ov by (rule soa_index_ok)
  have lb: "length ?b = length buf" by (rule length_soa_write)
  have inb: "(?s + 1) * sreal \<le> length ?b"
    using soa_slot_in_buf [OF k I, of sreal] len lb by simp
  have "(k + 1) * sreal \<le> sizeT div sreal * sreal"
    using k by (intro mult_le_mono1) simp
  also have "\<dots> \<le> sizeT" by simp
  finally have inv: "(k + 1) * sreal \<le> length v" using lv by simp
  have ld: "load_at v sreal (int k) = Inr ?r"
    using inv by (rule load_at_nat)
  have lr: "sreal \<le> length ?r" using inv by simp
  have st: "store_at ?b sreal (int ?s) ?r
              = Inr (take (?s * sreal) ?b @ take sreal ?r @ drop ((?s + 1) * sreal) ?b)"
    using inb by (rule store_at_nat)
  have eq: "take (?s * sreal) ?b @ take sreal ?r @ drop ((?s + 1) * sreal) ?b
              = soa_write sreal F I (Suc k) v buf"
  proof (rule nth_equalityI)
    show "length (take (?s * sreal) ?b @ take sreal ?r @ drop ((?s + 1) * sreal) ?b)
            = length (soa_write sreal F I (Suc k) v buf)"
      using length_poke [OF inb lr] by (simp add: length_soa_write)
  next
    fix p assume "p < length (take (?s * sreal) ?b @ take sreal ?r @ drop ((?s + 1) * sreal) ?b)"
    then have p': "p < length ?b" using length_poke [OF inb lr] by simp
    then have p: "p < length buf" using lb by simp
    have new: "soa_write sreal F I (Suc k) v buf ! p =
        (if (p div sreal) mod F = I \<and> (p div sreal) div F < Suc k
         then v ! ((p div sreal) div F * sreal + p mod sreal) else buf ! p)"
      using p by (simp add: soa_write_def)
    have old: "?b ! p =
        (if (p div sreal) mod F = I \<and> (p div sreal) div F < k
         then v ! ((p div sreal) div F * sreal + p mod sreal) else buf ! p)"
      using p by (simp add: soa_write_def)
    show "(take (?s * sreal) ?b @ take sreal ?r @ drop ((?s + 1) * sreal) ?b) ! p
            = soa_write sreal F I (Suc k) v buf ! p"
    proof (cases "p div sreal = ?s")
      case True
      then have dm: "(p div sreal) mod F = I \<and> (p div sreal) div F = k"
        using slot_decompose [OF I, of "p div sreal" k] by simp
      have "p - ?s * sreal = p mod sreal" using True by (rule div_mod_slot)
      moreover have "p mod sreal < sreal" using sr by simp
      ultimately have "?r ! (p - ?s * sreal) = v ! (k * sreal + p mod sreal)"
        using nth_load [OF inv, of "p mod sreal"] by simp
      then show ?thesis
        using True dm nth_poke [OF inb lr p'] slot_iff [OF sr, of ?s p] new
        by simp
    next
      case False
      then have "\<not> ((p div sreal) mod F = I \<and> (p div sreal) div F = k)"
        using slot_decompose [OF I, of "p div sreal" k] by simp
      then have "((p div sreal) mod F = I \<and> (p div sreal) div F < Suc k)
                   \<longleftrightarrow> ((p div sreal) mod F = I \<and> (p div sreal) div F < k)"
        by (auto simp add: less_Suc_eq)
      then have "soa_write sreal F I (Suc k) v buf ! p = ?b ! p"
        unfolding new old by simp
      moreover have ns: "\<not> (?s * sreal \<le> p \<and> p < (?s + 1) * sreal)"
        using False slot_iff [OF sr, of ?s p] by blast
      have "(take (?s * sreal) ?b @ take sreal ?r @ drop ((?s + 1) * sreal) ?b) ! p = ?b ! p"
        unfolding nth_poke [OF inb lr p'] using ns by (simp only: if_False)
      ultimately show ?thesis by simp
    qed
  qed
  show ?thesis
    by (simp only: set_soa_body_def idx ld st eq sum.case)
qed

lemma set_soa_closed:
  assumes I: "I < F" and sr: "0 < sreal" and buf: "fieldbuf st = Some buf"
    and len: "length buf = sizeT div sreal * sreal * F"
    and ov: "int (sizeT div sreal) * int F \<le> INT_MAX"
    and lv: "length v = sizeT"
  shows "set_soa sizeT sreal v (int I) (int F) st
           = Inr (st\<lparr>fieldbuf := Some (soa_write sreal F I (sizeT div sreal) v buf)\<rparr>)"
proof -
  let ?t = "sizeT div sreal"
  have "\<exists>b. for_loop 0 ?t (set_soa_body sreal v (int I) (int F)) buf = Inr b
          \<and> b = soa_write sreal F I ?t v buf"
  proof (rule for_loop_inv [where I = "\<lambda>k b. b = soa_write sreal F I k v buf"])
    show "int ?t \<le> INT_MAX" using I ov by (rule t_le_scalars)
    show "0 \<le> ?t" by simp
    show "buf = soa_write sreal F I 0 v buf" by (simp add: soa_write_0)
    show "\<exists>s'. set_soa_body sreal v (int I) (int F) k s = Inr s'
            \<and> s' = soa_write sreal F I (Suc k) v buf"
      if "k < ?t" and "s = soa_write sreal F I k v buf" for k s
      using that set_soa_step [OF that(1) I sr len ov lv] by simp
  qed
  then show ?thesis
    using I buf by (auto simp add: set_soa_def t_elements_def)
qed


lemma slot_pos:
  fixes e F J sr r :: nat
  assumes "J < F" and "r < sr"
  shows "((e * F + J) * sr + r) div sr = e * F + J"
    and "((e * F + J) * sr + r) mod sr = r"
    and "(e * F + J) mod F = J"
    and "(e * F + J) div F = e"
  using assms by simp_all

lemma slot_pos_less:
  fixes e t F J sr r :: nat
  assumes "e < t" and "J < F" and "r < sr"
  shows "(e * F + J) * sr + r < t * sr * F"
proof -
  have "(e * F + J) * sr + r < (e * F + J) * sr + sr" using assms(3) by simp
  also have "\<dots> = (e * F + J + 1) * sr" by simp
  also have "\<dots> \<le> t * sr * F" using assms(1,2) by (rule soa_slot_in_buf)
  finally show ?thesis .
qed

lemma div_less_t:
  fixes q sr sizeT :: nat
  assumes "0 < sr" and "q div sr < sizeT div sr"
  shows "q < sizeT"
  using assms by (meson div_le_mono leD leI)

lemma soa_read_write_same:
  assumes I: "I < F" and sr: "0 < sreal"
    and len: "length buf = sizeT div sreal * sreal * F"
  shows "soa_read sizeT sreal F I (sizeT div sreal) (soa_write sreal F I (sizeT div sreal) v buf)
           = soa_kept sizeT sreal v"
proof (rule nth_equalityI)
  show "length (soa_read sizeT sreal F I (sizeT div sreal)
          (soa_write sreal F I (sizeT div sreal) v buf)) = length (soa_kept sizeT sreal v)"
    by (simp add: soa_read_def soa_kept_def)
next
  fix q assume "q < length (soa_read sizeT sreal F I (sizeT div sreal)
          (soa_write sreal F I (sizeT div sreal) v buf))"
  then have q: "q < sizeT" by (simp add: soa_read_def)
  let ?e = "q div sreal" and ?r = "q mod sreal"
  let ?p = "(?e * F + I) * sreal + ?r"
  have r: "?r < sreal" using sr by simp
  show "soa_read sizeT sreal F I (sizeT div sreal)
          (soa_write sreal F I (sizeT div sreal) v buf) ! q = soa_kept sizeT sreal v ! q"
  proof (cases "?e < sizeT div sreal")
    case True
    have p: "?p < length buf" using slot_pos_less [OF True I r] len by simp
    have "soa_write sreal F I (sizeT div sreal) v buf ! ?p = v ! (?e * sreal + ?r)"
      using p True I r by (simp add: soa_write_def)
    also have "?e * sreal + ?r = q" by simp
    finally show ?thesis using q True by (simp add: soa_read_def soa_kept_def)
  next
    case False
    then show ?thesis using q by (simp add: soa_read_def soa_kept_def)
  qed
qed

lemma soa_kept_whole:
  assumes "sreal dvd sizeT" and "0 < sreal" and "length v = sizeT"
  shows "soa_kept sizeT sreal v = v"
proof (rule nth_equalityI)
  show "length (soa_kept sizeT sreal v) = length v" using assms(3) by (simp add: soa_kept_def)
next
  fix q assume "q < length (soa_kept sizeT sreal v)"
  then have q: "q < sizeT" by (simp add: soa_kept_def)
  have "sizeT div sreal * sreal = sizeT" using assms(1) by simp
  then have "q < sizeT div sreal * sreal" using q by simp
  then have "q div sreal < sizeT div sreal" using assms(2)
    by (simp add: less_mult_imp_div_less)
  then show "soa_kept sizeT sreal v ! q = v ! q" using q by (simp add: soa_kept_def)
qed

lemma soa_read_write_other:
  assumes I: "I < F" and J: "J < F" and ne: "J \<noteq> I" and sr: "0 < sreal"
    and len: "length buf = sizeT div sreal * sreal * F"
  shows "soa_read sizeT sreal F J (sizeT div sreal) (soa_write sreal F I k v buf)
           = soa_read sizeT sreal F J (sizeT div sreal) buf"
proof (rule nth_equalityI)
  show "length (soa_read sizeT sreal F J (sizeT div sreal) (soa_write sreal F I k v buf))
          = length (soa_read sizeT sreal F J (sizeT div sreal) buf)"
    by (simp add: soa_read_def)
next
  fix q assume "q < length (soa_read sizeT sreal F J (sizeT div sreal) (soa_write sreal F I k v buf))"
  then have q: "q < sizeT" by (simp add: soa_read_def)
  let ?e = "q div sreal" and ?r = "q mod sreal"
  let ?p = "(?e * F + J) * sreal + ?r"
  have r: "?r < sreal" using sr by simp
  show "soa_read sizeT sreal F J (sizeT div sreal) (soa_write sreal F I k v buf) ! q
          = soa_read sizeT sreal F J (sizeT div sreal) buf ! q"
  proof (cases "?e < sizeT div sreal")
    case True
    have p: "?p < length buf" using slot_pos_less [OF True J r] len by simp
    have "soa_write sreal F I k v buf ! ?p = buf ! ?p"
      using p ne J r by (simp add: soa_write_def)
    then show ?thesis using q by (simp add: soa_read_def)
  next
    case False
    then show ?thesis using q by (simp add: soa_read_def)
  qed
qed

lemma nth_soa_read:
  "q < sizeT \<Longrightarrow> soa_read sizeT sreal F I k buf ! q =
     (if q div sreal < k then buf ! ((q div sreal * F + I) * sreal + q mod sreal) else Undef)"
  by (simp add: soa_read_def)

lemma nth_soa_write:
  "p < length buf \<Longrightarrow> soa_write sreal F I k v buf ! p =
     (if (p div sreal) mod F = I \<and> (p div sreal) div F < k
      then v ! ((p div sreal) div F * sreal + p mod sreal) else buf ! p)"
  by (simp add: soa_write_def)

lemma soa_write_read_same:
  assumes I: "I < F" and sr: "0 < sreal"
  shows "soa_write sreal F I (sizeT div sreal) (soa_read sizeT sreal F I (sizeT div sreal) buf) buf
           = buf"
proof (rule nth_equalityI)
  show "length (soa_write sreal F I (sizeT div sreal)
          (soa_read sizeT sreal F I (sizeT div sreal) buf) buf) = length buf"
    by (rule length_soa_write)
next
  fix p assume "p < length (soa_write sreal F I (sizeT div sreal)
          (soa_read sizeT sreal F I (sizeT div sreal) buf) buf)"
  then have p: "p < length buf" by (simp add: length_soa_write)
  let ?s = "p div sreal" and ?r = "p mod sreal"
  let ?e = "?s div F"
  let ?q = "?e * sreal + ?r"
  have r: "?r < sreal" using sr by simp
  show "soa_write sreal F I (sizeT div sreal)
          (soa_read sizeT sreal F I (sizeT div sreal) buf) buf ! p = buf ! p"
  proof (cases "?s mod F = I \<and> ?e < sizeT div sreal")
    case True
    then have s: "?s = ?e * F + I" using slot_decompose [OF I, of ?s ?e] by simp
    have qd: "?q div sreal = ?e" and qm: "?q mod sreal = ?r" using r by simp_all
    have "?q div sreal < sizeT div sreal" using True qd by simp
    then have ql: "?q < sizeT" using sr div_less_t by blast
    have "soa_read sizeT sreal F I (sizeT div sreal) buf ! ?q
            = buf ! ((?e * F + I) * sreal + ?r)"
      using True unfolding nth_soa_read [OF ql] qd qm by simp
    also have "(?e * F + I) * sreal + ?r = p" using s by simp
    finally show ?thesis using True unfolding nth_soa_write [OF p] by simp
  next
    case False
    then show ?thesis unfolding nth_soa_write [OF p] by auto
  qed
qed


lemma aos_slot_in_buf:
  fixes I F sizeT :: nat
  assumes "I < F"
  shows "(I + 1) * sizeT \<le> sizeT * F"
proof -
  have "I + 1 \<le> F" using assms by simp
  then have "(I + 1) * sizeT \<le> F * sizeT" by (rule mult_le_mono1)
  then show ?thesis by (simp add: mult.commute)
qed

lemma length_aos_read:
  assumes "I < F" and "length buf = sizeT * F"
  shows "length (aos_read sizeT I buf) = sizeT"
  unfolding aos_read_def using aos_slot_in_buf [OF assms(1), of sizeT] assms(2)
  by (intro length_load) simp

lemma length_aos_write:
  assumes "I < F" and "length buf = sizeT * F" and "length v = sizeT"
  shows "length (aos_write sizeT I v buf) = length buf"
  unfolding aos_write_def using aos_slot_in_buf [OF assms(1), of sizeT] assms(2,3)
  by (intro length_poke) simp_all

lemma nth_aos_read:
  assumes "I < F" and "length buf = sizeT * F" and "q < sizeT"
  shows "aos_read sizeT I buf ! q = buf ! (I * sizeT + q)"
  unfolding aos_read_def using aos_slot_in_buf [OF assms(1), of sizeT] assms(2,3)
  by (intro nth_load) simp_all

lemma nth_aos_write:
  assumes "I < F" and "length buf = sizeT * F" and "length v = sizeT" and "p < length buf"
  shows "aos_write sizeT I v buf ! p =
           (if I * sizeT \<le> p \<and> p < (I + 1) * sizeT then v ! (p - I * sizeT) else buf ! p)"
  unfolding aos_write_def using aos_slot_in_buf [OF assms(1), of sizeT] assms(2,3,4)
  by (intro nth_poke) simp_all

lemma aos_pos_less:
  fixes J F sizeT q :: nat
  assumes "J < F" and "q < sizeT"
  shows "J * sizeT + q < sizeT * F"
proof -
  have "J * sizeT + q < J * sizeT + sizeT" using assms(2) by simp
  also have "\<dots> = (J + 1) * sizeT" by simp
  also have "\<dots> \<le> sizeT * F" using assms(1) by (rule aos_slot_in_buf)
  finally show ?thesis .
qed

lemma aos_read_write_same:
  assumes I: "I < F" and len: "length buf = sizeT * F" and lv: "length v = sizeT"
  shows "aos_read sizeT I (aos_write sizeT I v buf) = v"
proof (rule nth_equalityI)
  have lw: "length (aos_write sizeT I v buf) = sizeT * F"
    using length_aos_write [OF I len lv] len by simp
  show "length (aos_read sizeT I (aos_write sizeT I v buf)) = length v"
    using length_aos_read [OF I lw] lv by simp
  fix q assume "q < length (aos_read sizeT I (aos_write sizeT I v buf))"
  then have q: "q < sizeT" using length_aos_read [OF I lw] by simp
  have p: "I * sizeT + q < length buf" using aos_pos_less [OF I q] len by simp
  have "aos_read sizeT I (aos_write sizeT I v buf) ! q = aos_write sizeT I v buf ! (I * sizeT + q)"
    using I lw q by (rule nth_aos_read)
  also have "\<dots> = v ! q"
    unfolding nth_aos_write [OF I len lv p] using q by simp
  finally show "aos_read sizeT I (aos_write sizeT I v buf) ! q = v ! q" .
qed

lemma aos_read_write_other:
  assumes I: "I < F" and J: "J < F" and ne: "J \<noteq> I"
    and len: "length buf = sizeT * F" and lv: "length v = sizeT"
  shows "aos_read sizeT J (aos_write sizeT I v buf) = aos_read sizeT J buf"
proof (rule nth_equalityI)
  have lw: "length (aos_write sizeT I v buf) = sizeT * F"
    using length_aos_write [OF I len lv] len by simp
  show "length (aos_read sizeT J (aos_write sizeT I v buf)) = length (aos_read sizeT J buf)"
    using length_aos_read [OF J lw] length_aos_read [OF J len] by simp
  fix q assume "q < length (aos_read sizeT J (aos_write sizeT I v buf))"
  then have q: "q < sizeT" using length_aos_read [OF J lw] by simp
  then have sz: "0 < sizeT" by simp
  have p: "J * sizeT + q < length buf" using aos_pos_less [OF J q] len by simp
  have "(J * sizeT + q) div sizeT = J" using q by simp
  then have out: "\<not> (I * sizeT \<le> J * sizeT + q \<and> J * sizeT + q < (I + 1) * sizeT)"
    using slot_iff [OF sz, of I "J * sizeT + q"] ne by simp
  have "aos_read sizeT J (aos_write sizeT I v buf) ! q = aos_write sizeT I v buf ! (J * sizeT + q)"
    using J lw q by (rule nth_aos_read)
  also have "\<dots> = buf ! (J * sizeT + q)"
    unfolding nth_aos_write [OF I len lv p] using out by (simp only: if_False)
  also have "\<dots> = aos_read sizeT J buf ! q"
    using nth_aos_read [OF J len q] by simp
  finally show "aos_read sizeT J (aos_write sizeT I v buf) ! q = aos_read sizeT J buf ! q" .
qed

lemma aos_write_read_same:
  assumes I: "I < F" and len: "length buf = sizeT * F"
  shows "aos_write sizeT I (aos_read sizeT I buf) buf = buf"
proof (rule nth_equalityI)
  have lv: "length (aos_read sizeT I buf) = sizeT" using I len by (rule length_aos_read)
  show "length (aos_write sizeT I (aos_read sizeT I buf) buf) = length buf"
    using I len lv by (rule length_aos_write)
  fix p assume "p < length (aos_write sizeT I (aos_read sizeT I buf) buf)"
  then have p: "p < length buf" using length_aos_write [OF I len lv] by simp
  show "aos_write sizeT I (aos_read sizeT I buf) buf ! p = buf ! p"
  proof (cases "I * sizeT \<le> p \<and> p < (I + 1) * sizeT")
    case True
    then have "p - I * sizeT < sizeT" by auto
    then have "aos_read sizeT I buf ! (p - I * sizeT) = buf ! (I * sizeT + (p - I * sizeT))"
      using I len by (intro nth_aos_read)
    also have "I * sizeT + (p - I * sizeT) = p" using True by simp
    finally show ?thesis unfolding nth_aos_write [OF I len lv p] using True by simp
  next
    case False
    then show ?thesis unfolding nth_aos_write [OF I len lv p] by (simp only: if_False)
  qed
qed

lemma get_aos_closed:
  assumes I: "I < F" and buf: "fieldbuf st = Some buf" and len: "length buf = sizeT * F"
  shows "get_aos sizeT st (int I) fas = Inr (aos_read sizeT I buf)"
  using load_at_nat [of I sizeT buf] aos_slot_in_buf [OF I, of sizeT] buf len
  by (simp add: get_aos_def aos_read_def)

lemma set_aos_closed:
  assumes I: "I < F" and buf: "fieldbuf st = Some buf" and len: "length buf = sizeT * F"
  shows "set_aos sizeT v (int I) fas st = Inr (st\<lparr>fieldbuf := Some (aos_write sizeT I v buf)\<rparr>)"
  using store_at_nat [of I sizeT buf v] aos_slot_in_buf [OF I, of sizeT] buf len
  by (simp add: set_aos_def aos_write_def)

section \<open>The two layouts behind one interface\<close>

lemma storage_bytes_nat:
  "storage_bytes AoS sizeT sreal (int F) = sizeT * F"
  "storage_bytes SoA sizeT sreal (int F) = sizeT div sreal * sreal * F"
  by (simp_all add: storage_bytes_def t_elements_def)

lemma machine_ranges_nat:
  assumes "machine_ranges lay sizeT sreal lattice" and "field_alloc_size lattice = int F"
  shows "0 < sreal" and "int F \<le> INT_MAX"
    and "lay = SoA \<Longrightarrow> int (sizeT div sreal) * int F \<le> INT_MAX"
  using assms by (auto simp add: machine_ranges_def t_elements_def)

lemma valid_index_nat:
  assumes "valid_index lattice i"
  obtains I F where "i = int I" and "field_alloc_size lattice = int F" and "I < F"
proof -
  from assms have a: "0 \<le> i" and b: "i < field_alloc_size lattice"
    by (simp_all add: valid_index_def)
  then have c: "0 \<le> field_alloc_size lattice" by simp
  show thesis
  proof (rule that [of "nat i" "nat (field_alloc_size lattice)"])
    show "i = int (nat i)" using a by simp
    show "field_alloc_size lattice = int (nat (field_alloc_size lattice))" using c by simp
    show "nat i < nat (field_alloc_size lattice)" using a b by simp
  qed
qed

lemma get_closed_nat:
  assumes mr: "machine_ranges lay sizeT sreal lattice" and F: "field_alloc_size lattice = int F"
    and I: "I < F" and buf: "fieldbuf st = Some buf"
    and len: "length buf = storage_bytes lay sizeT sreal (int F)"
  shows "field_storage_get lay sizeT sreal st (int I) (int F) = Inr (elem_at lay sizeT sreal F I buf)"
proof (cases lay)
  case AoS
  then show ?thesis
    using get_aos_closed [OF I buf, of sizeT "int F"] len
    by (simp add: field_storage_get_def elem_at_def storage_bytes_nat)
next
  case SoA
  then show ?thesis
    using get_soa_closed [OF I machine_ranges_nat(1) [OF mr F] buf _ machine_ranges_nat(3) [OF mr F SoA]] len
    by (simp add: field_storage_get_def elem_at_def storage_bytes_nat)
qed

lemma set_closed_nat:
  assumes mr: "machine_ranges lay sizeT sreal lattice" and F: "field_alloc_size lattice = int F"
    and I: "I < F" and buf: "fieldbuf st = Some buf"
    and len: "length buf = storage_bytes lay sizeT sreal (int F)"
    and lv: "length v = sizeT"
  shows "field_storage_set lay sizeT sreal v (int I) (int F) st
           = Inr (st\<lparr>fieldbuf := Some (with_elem lay sizeT sreal F I v buf)\<rparr>)"
proof (cases lay)
  case AoS
  then show ?thesis
    using set_aos_closed [OF I buf, of sizeT v "int F"] len
    by (simp add: field_storage_set_def with_elem_def storage_bytes_nat)
next
  case SoA
  then show ?thesis
    using set_soa_closed [OF I machine_ranges_nat(1) [OF mr F] buf _ machine_ranges_nat(3) [OF mr F SoA] lv] len
    by (simp add: field_storage_set_def with_elem_def storage_bytes_nat)
qed

lemma length_elem_at:
  assumes "I < F" and "length buf = storage_bytes lay sizeT sreal (int F)"
  shows "length (elem_at lay sizeT sreal F I buf) = sizeT"
  using assms length_aos_read [of I F buf sizeT]
  by (cases lay) (simp_all add: elem_at_def storage_bytes_nat length_soa_read)

lemma length_with_elem:
  assumes "I < F" and "length buf = storage_bytes lay sizeT sreal (int F)" and "length v = sizeT"
  shows "length (with_elem lay sizeT sreal F I v buf) = length buf"
  using assms length_aos_write [of I F buf sizeT v]
  by (cases lay) (simp_all add: with_elem_def storage_bytes_nat length_soa_write)

lemma elem_with_same:
  assumes "I < F" and "0 < sreal" and "length buf = storage_bytes lay sizeT sreal (int F)"
    and "length v = sizeT"
  shows "elem_at lay sizeT sreal F I (with_elem lay sizeT sreal F I v buf) = kept lay sizeT sreal v"
  using assms aos_read_write_same [of I F buf sizeT v] soa_read_write_same [of I F sreal buf sizeT v]
  by (cases lay) (simp_all add: elem_at_def with_elem_def kept_def storage_bytes_nat)

lemma elem_with_other:
  assumes "I < F" and "J < F" and "J \<noteq> I" and "0 < sreal"
    and "length buf = storage_bytes lay sizeT sreal (int F)" and "length v = sizeT"
  shows "elem_at lay sizeT sreal F J (with_elem lay sizeT sreal F I v buf)
           = elem_at lay sizeT sreal F J buf"
  using assms aos_read_write_other [of I F J buf sizeT v]
    soa_read_write_other [of I F J sreal buf sizeT "sizeT div sreal" v]
  by (cases lay) (simp_all add: elem_at_def with_elem_def storage_bytes_nat)

lemma with_elem_same:
  assumes "I < F" and "0 < sreal" and "length buf = storage_bytes lay sizeT sreal (int F)"
  shows "with_elem lay sizeT sreal F I (elem_at lay sizeT sreal F I buf) buf = buf"
  using assms aos_write_read_same [of I F buf sizeT] soa_write_read_same [of I F sreal sizeT buf]
  by (cases lay) (simp_all add: elem_at_def with_elem_def storage_bytes_nat)

lemma kept_whole:
  assumes "lay = AoS \<or> sreal dvd sizeT" and "0 < sreal" and "length v = sizeT"
  shows "kept lay sizeT sreal v = v"
  using assms soa_kept_whole [of sreal sizeT v]
  by (cases lay) (simp_all add: kept_def)

lemma allocatedD:
  assumes "allocated lay sizeT sreal lattice st"
  obtains buf where "fieldbuf st = Some buf"
    and "length buf = storage_bytes lay sizeT sreal (field_alloc_size lattice)"
  using assms by (auto simp add: allocated_def split: option.splits)

lemma allocated_update:
  assumes "length buf' = storage_bytes lay sizeT sreal (field_alloc_size lattice)"
  shows "allocated lay sizeT sreal lattice (st\<lparr>fieldbuf := Some buf'\<rparr>)"
  using assms by (simp add: allocated_def)

text \<open>
  The two accessors on an allocated storage, at a valid index: \<^verbatim>\<open>get\<close> returns the
  closed form of the element, \<^verbatim>\<open>set\<close> returns a storage that is allocated again.
\<close>

lemma get_allocated:
  assumes mr: "machine_ranges lay sizeT sreal lattice" and vi: "valid_index lattice i"
    and buf: "fieldbuf st = Some buf"
    and len: "length buf = storage_bytes lay sizeT sreal (field_alloc_size lattice)"
  shows "field_storage_get lay sizeT sreal st i (field_alloc_size lattice)
           = Inr (elem_at lay sizeT sreal (nat (field_alloc_size lattice)) (nat i) buf)"
proof -
  from vi obtain I F where i: "i = int I" and F: "field_alloc_size lattice = int F" and I: "I < F"
    by (rule valid_index_nat)
  show ?thesis
    using get_closed_nat [OF mr F I buf] len by (simp add: i F)
qed

lemma set_allocated:
  assumes mr: "machine_ranges lay sizeT sreal lattice" and vi: "valid_index lattice i"
    and buf: "fieldbuf st = Some buf"
    and len: "length buf = storage_bytes lay sizeT sreal (field_alloc_size lattice)"
    and lv: "length v = sizeT"
  shows "field_storage_set lay sizeT sreal v i (field_alloc_size lattice) st
           = Inr (st\<lparr>fieldbuf :=
               Some (with_elem lay sizeT sreal (nat (field_alloc_size lattice)) (nat i) v buf)\<rparr>)"
proof -
  from vi obtain I F where i: "i = int I" and F: "field_alloc_size lattice = int F" and I: "I < F"
    by (rule valid_index_nat)
  show ?thesis
    using set_closed_nat [OF mr F I buf _ lv] len by (simp add: i F)
qed

lemma length_with_elem_lattice:
  assumes vi: "valid_index lattice i"
    and len: "length buf = storage_bytes lay sizeT sreal (field_alloc_size lattice)"
    and lv: "length v = sizeT"
  shows "length (with_elem lay sizeT sreal (nat (field_alloc_size lattice)) (nat i) v buf)
           = storage_bytes lay sizeT sreal (field_alloc_size lattice)"
proof -
  from vi obtain I F where i: "i = int I" and F: "field_alloc_size lattice = int F" and I: "I < F"
    by (rule valid_index_nat)
  show ?thesis
    using length_with_elem [OF I _ lv, of buf lay sreal] len by (simp add: i F)
qed

lemma length_elem_at_lattice:
  assumes vi: "valid_index lattice i"
    and len: "length buf = storage_bytes lay sizeT sreal (field_alloc_size lattice)"
  shows "length (elem_at lay sizeT sreal (nat (field_alloc_size lattice)) (nat i) buf) = sizeT"
proof -
  from vi obtain I F where i: "i = int I" and F: "field_alloc_size lattice = int F" and I: "I < F"
    by (rule valid_index_nat)
  show ?thesis
    using length_elem_at [OF I, of buf lay sizeT sreal] len by (simp add: i F)
qed

lemma elem_with_same_lattice:
  assumes mr: "machine_ranges lay sizeT sreal lattice" and vi: "valid_index lattice i"
    and len: "length buf = storage_bytes lay sizeT sreal (field_alloc_size lattice)"
    and lv: "length v = sizeT"
  shows "elem_at lay sizeT sreal (nat (field_alloc_size lattice)) (nat i)
           (with_elem lay sizeT sreal (nat (field_alloc_size lattice)) (nat i) v buf)
         = kept lay sizeT sreal v"
proof -
  from vi obtain I F where i: "i = int I" and F: "field_alloc_size lattice = int F" and I: "I < F"
    by (rule valid_index_nat)
  show ?thesis
    using elem_with_same [OF I machine_ranges_nat(1) [OF mr F] _ lv, of buf lay] len
    by (simp add: i F)
qed

lemma elem_with_other_lattice:
  assumes mr: "machine_ranges lay sizeT sreal lattice" and vi: "valid_index lattice i"
    and vj: "valid_index lattice j" and ne: "j \<noteq> i"
    and len: "length buf = storage_bytes lay sizeT sreal (field_alloc_size lattice)"
    and lv: "length v = sizeT"
  shows "elem_at lay sizeT sreal (nat (field_alloc_size lattice)) (nat j)
           (with_elem lay sizeT sreal (nat (field_alloc_size lattice)) (nat i) v buf)
         = elem_at lay sizeT sreal (nat (field_alloc_size lattice)) (nat j) buf"
proof -
  from vi obtain I F where i: "i = int I" and F: "field_alloc_size lattice = int F" and I: "I < F"
    by (rule valid_index_nat)
  from vj F have j0: "0 \<le> j" and j1: "j < int F" by (simp_all add: valid_index_def)
  then have J: "nat j < F" and j: "j = int (nat j)" by linarith+
  have "nat j \<noteq> I" using ne i j by auto
  then show ?thesis
    using elem_with_other [OF I J _ machine_ranges_nat(1) [OF mr F] _ lv, of buf lay] len
    by (simp add: i F)
qed

lemma with_elem_same_lattice:
  assumes mr: "machine_ranges lay sizeT sreal lattice" and vi: "valid_index lattice i"
    and len: "length buf = storage_bytes lay sizeT sreal (field_alloc_size lattice)"
  shows "with_elem lay sizeT sreal (nat (field_alloc_size lattice)) (nat i)
           (elem_at lay sizeT sreal (nat (field_alloc_size lattice)) (nat i) buf) buf = buf"
proof -
  from vi obtain I F where i: "i = int I" and F: "field_alloc_size lattice = int F" and I: "I < F"
    by (rule valid_index_nat)
  show ?thesis
    using with_elem_same [OF I machine_ranges_nat(1) [OF mr F], of buf lay sizeT] len
    by (simp add: i F)
qed

section \<open>Packing and unpacking\<close>

lemma valid_indices_nth:
  assumes mr: "machine_ranges lay sizeT sreal lattice" and vs: "valid_indices lattice index_list"
    and j: "j < length index_list"
  shows "valid_index lattice (sint (index_list ! j))"
proof -
  have lt: "uint (index_list ! j) < field_alloc_size lattice"
    using vs j by (simp add: valid_indices_def list_all_length)
  have "field_alloc_size lattice \<le> INT_MAX" using mr by (simp add: machine_ranges_def)
  then have "uint (index_list ! j) \<le> INT_MAX" using lt by simp
  then have "sint (index_list ! j) = uint (index_list ! j)" by (rule sint_index)
  then show ?thesis using lt by (simp add: valid_index_def)
qed

lemma length_packed:
  assumes mr: "machine_ranges lay sizeT sreal lattice" and vs: "valid_indices lattice index_list"
    and len: "length buf = storage_bytes lay sizeT sreal (field_alloc_size lattice)"
  shows "length (packed lay sizeT sreal lattice buf index_list) = length index_list * sizeT"
  using vs
proof (induction index_list)
  case Nil
  then show ?case by (simp add: packed_def)
next
  case (Cons w ws)
  have "valid_index lattice (sint ((w # ws) ! 0))"
    using mr Cons.prems by (rule valid_indices_nth) simp
  then have "length (elem_at lay sizeT sreal (nat (field_alloc_size lattice)) (nat (sint w)) buf) = sizeT"
    using length_elem_at_lattice [OF _ len] by simp
  moreover have "valid_indices lattice ws" using Cons.prems by (simp add: valid_indices_def)
  ultimately show ?case using Cons.IH by (simp add: packed_def)
qed

lemma packed_snoc:
  "packed lay sizeT sreal lattice buf (ws @ [w]) =
     packed lay sizeT sreal lattice buf ws
       @ elem_at lay sizeT sreal (nat (field_alloc_size lattice)) (nat (sint w)) buf"
  by (simp add: packed_def)

lemma valid_indices_take:
  "valid_indices lattice index_list \<Longrightarrow> valid_indices lattice (take j index_list)"
  by (auto simp add: valid_indices_def list_all_iff dest: in_set_takeD)

lemma gather_step:
  assumes mr: "machine_ranges lay sizeT sreal lattice" and vs: "valid_indices lattice index_list"
    and buf: "fieldbuf st = Some buf"
    and len: "length buf = storage_bytes lay sizeT sreal (field_alloc_size lattice)"
    and room: "length index_list * sizeT \<le> length buffer"
    and j: "j < length index_list"
  shows "gather_body lay sizeT sreal st index_list lattice j
           (packed lay sizeT sreal lattice buf (take j index_list) @ drop (j * sizeT) buffer)
         = Inr (packed lay sizeT sreal lattice buf (take (Suc j) index_list)
                  @ drop (Suc j * sizeT) buffer)"
proof -
  let ?P = "packed lay sizeT sreal lattice buf (take j index_list)"
  let ?B = "?P @ drop (j * sizeT) buffer"
  let ?el = "elem_at lay sizeT sreal (nat (field_alloc_size lattice)) (nat (sint (index_list ! j))) buf"
  have vi: "valid_index lattice (sint (index_list ! j))" using mr vs j by (rule valid_indices_nth)
  have g: "field_storage_get lay sizeT sreal st (sint (index_list ! j)) (field_alloc_size lattice)
             = Inr ?el"
    using mr vi buf len by (rule get_allocated)
  have lel: "length ?el = sizeT" using vi len by (rule length_elem_at_lattice)
  have lP: "length ?P = j * sizeT"
    using length_packed [OF mr valid_indices_take [OF vs] len, of j] j by simp
  have "(j + 1) * sizeT \<le> length index_list * sizeT"
    using j by (intro mult_le_mono1) simp
  then have r: "(j + 1) * sizeT \<le> length buffer" using room by simp
  then have lB: "(j + 1) * sizeT \<le> length ?B" using lP by simp
  have s: "store_at ?B sizeT (int j) ?el
             = Inr (take (j * sizeT) ?B @ take sizeT ?el @ drop ((j + 1) * sizeT) ?B)"
    using lB by (rule store_at_nat)
  have t1: "take (j * sizeT) ?B = ?P" using lP by simp
  have t2: "take sizeT ?el = ?el" using lel by simp
  have t3: "drop ((j + 1) * sizeT) ?B = drop (Suc j * sizeT) buffer"
    using lP by (simp add: add.commute)
  have t4: "packed lay sizeT sreal lattice buf (take (Suc j) index_list) = ?P @ ?el"
    using j by (simp add: take_Suc_conv_app_nth packed_snoc)
  have "gather_body lay sizeT sreal st index_list lattice j ?B = store_at ?B sizeT (int j) ?el"
    by (simp add: gather_body_def g)
  also have "\<dots> = Inr (take (j * sizeT) ?B @ take sizeT ?el @ drop ((j + 1) * sizeT) ?B)"
    by (rule s)
  also have "take (j * sizeT) ?B @ take sizeT ?el @ drop ((j + 1) * sizeT) ?B
               = ?P @ ?el @ drop (Suc j * sizeT) buffer"
    by (simp only: t1 t2 t3)
  also have "\<dots> = packed lay sizeT sreal lattice buf (take (Suc j) index_list)
                       @ drop (Suc j * sizeT) buffer"
    by (simp only: t4 append_assoc)
  finally show ?thesis .
qed

lemma gather_closed:
  assumes mr: "machine_ranges lay sizeT sreal lattice" and vs: "valid_indices lattice index_list"
    and buf: "fieldbuf st = Some buf"
    and len: "length buf = storage_bytes lay sizeT sreal (field_alloc_size lattice)"
    and room: "length index_list * sizeT \<le> length buffer"
    and n: "int (length index_list) \<le> INT_MAX"
  shows "gather_elements lay sizeT sreal st buffer index_list lattice
           = Inr (packed lay sizeT sreal lattice buf index_list
                    @ drop (length index_list * sizeT) buffer)"
proof -
  let ?inv = "\<lambda>j B. B = packed lay sizeT sreal lattice buf (take j index_list) @ drop (j * sizeT) buffer"
  have "\<exists>B. for_loop 0 (length index_list) (gather_body lay sizeT sreal st index_list lattice) buffer
              = Inr B \<and> ?inv (length index_list) B"
  proof (rule for_loop_inv [where I = ?inv])
    show "int (length index_list) \<le> INT_MAX" by fact
    show "0 \<le> length index_list" by simp
    show "?inv 0 buffer" by (simp add: packed_def)
    show "\<exists>s'. gather_body lay sizeT sreal st index_list lattice k s = Inr s' \<and> ?inv (Suc k) s'"
      if "k < length index_list" and "?inv k s" for k s
      using that gather_step [OF mr vs buf len room that(1)] by simp
  qed
  then show ?thesis by (simp add: gather_elements_def)
qed

lemma length_placed:
  assumes mr: "machine_ranges lay sizeT sreal lattice" and vs: "valid_indices lattice index_list"
    and len: "length buf = storage_bytes lay sizeT sreal (field_alloc_size lattice)"
    and room: "length index_list * sizeT \<le> length buffer"
    and j: "j \<le> length index_list"
  shows "length (placed lay sizeT sreal lattice buffer index_list j buf)
           = storage_bytes lay sizeT sreal (field_alloc_size lattice)"
  using j
proof (induction j)
  case 0
  then show ?case using len by simp
next
  case (Suc j)
  then have j: "j < length index_list" by simp
  have vi: "valid_index lattice (sint (index_list ! j))" using mr vs j by (rule valid_indices_nth)
  have "(j + 1) * sizeT \<le> length index_list * sizeT"
    using j by (intro mult_le_mono1) simp
  then have "(j + 1) * sizeT \<le> length buffer" using room by simp
  then have lc: "length (take sizeT (drop (j * sizeT) buffer)) = sizeT" by (rule length_load)
  have "length (placed lay sizeT sreal lattice buffer index_list j buf)
          = storage_bytes lay sizeT sreal (field_alloc_size lattice)"
    using Suc by simp
  then show ?case
    using length_with_elem_lattice [OF vi _ lc] by simp
qed

lemma place_step:
  assumes mr: "machine_ranges lay sizeT sreal lattice" and vs: "valid_indices lattice index_list"
    and len: "length buf = storage_bytes lay sizeT sreal (field_alloc_size lattice)"
    and room: "length index_list * sizeT \<le> length buffer"
    and j: "j < length index_list"
  shows "place_body lay sizeT sreal buffer index_list lattice j
           (st\<lparr>fieldbuf := Some (placed lay sizeT sreal lattice buffer index_list j buf)\<rparr>)
         = Inr (st\<lparr>fieldbuf := Some (placed lay sizeT sreal lattice buffer index_list (Suc j) buf)\<rparr>)"
proof -
  let ?b = "placed lay sizeT sreal lattice buffer index_list j buf"
  let ?c = "take sizeT (drop (j * sizeT) buffer)"
  have vi: "valid_index lattice (sint (index_list ! j))" using mr vs j by (rule valid_indices_nth)
  have "(j + 1) * sizeT \<le> length index_list * sizeT"
    using j by (intro mult_le_mono1) simp
  then have r: "(j + 1) * sizeT \<le> length buffer" using room by simp
  have ld: "load_at buffer sizeT (int j) = Inr ?c" using r by (rule load_at_nat)
  have lc: "length ?c = sizeT" using r by (rule length_load)
  have lb: "length ?b = storage_bytes lay sizeT sreal (field_alloc_size lattice)"
    using mr vs len room by (rule length_placed) (use j in simp)
  have fb: "fieldbuf (st\<lparr>fieldbuf := Some ?b\<rparr>) = Some ?b" by simp
  have "field_storage_set lay sizeT sreal ?c (sint (index_list ! j)) (field_alloc_size lattice)
          (st\<lparr>fieldbuf := Some ?b\<rparr>)
        = Inr (st\<lparr>fieldbuf := Some ?b\<rparr>\<lparr>fieldbuf := Some (with_elem lay sizeT sreal
            (nat (field_alloc_size lattice)) (nat (sint (index_list ! j))) ?c ?b)\<rparr>)"
    using mr vi fb lb lc by (rule set_allocated)
  then show ?thesis
    by (simp add: place_body_def ld)
qed

lemma place_closed:
  assumes mr: "machine_ranges lay sizeT sreal lattice" and vs: "valid_indices lattice index_list"
    and buf: "fieldbuf st = Some buf"
    and len: "length buf = storage_bytes lay sizeT sreal (field_alloc_size lattice)"
    and room: "length index_list * sizeT \<le> length buffer"
    and n: "int (length index_list) \<le> INT_MAX"
  shows "place_elements lay sizeT sreal buffer index_list lattice st
           = Inr (st\<lparr>fieldbuf :=
               Some (placed lay sizeT sreal lattice buffer index_list (length index_list) buf)\<rparr>)"
proof -
  let ?inv = "\<lambda>j s. s = st\<lparr>fieldbuf := Some (placed lay sizeT sreal lattice buffer index_list j buf)\<rparr>"
  have "\<exists>s. for_loop 0 (length index_list) (place_body lay sizeT sreal buffer index_list lattice) st
              = Inr s \<and> ?inv (length index_list) s"
  proof (rule for_loop_inv [where I = ?inv])
    show "int (length index_list) \<le> INT_MAX" by fact
    show "0 \<le> length index_list" by simp
    show "?inv 0 st" using buf by simp
    show "\<exists>s'. place_body lay sizeT sreal buffer index_list lattice k s = Inr s' \<and> ?inv (Suc k) s'"
      if "k < length index_list" and "?inv k s" for k s
      using that place_step [OF mr vs len room that(1)] by simp
  qed
  then show ?thesis by (simp add: place_elements_def)
qed

text \<open>The \<open>m\<close>-th chunk of a sequence of equally long pieces.\<close>

lemma chunk_concat:
  assumes "\<forall>x \<in> set xs. length x = n" and "m < length xs"
  shows "take n (drop (m * n) (concat xs @ r)) = xs ! m"
  using assms
proof (induction xs arbitrary: m)
  case Nil
  then show ?case by simp
next
  case (Cons x xs)
  then have lx: "length x = n" by simp
  show ?case
  proof (cases m)
    case 0
    then show ?thesis using lx by simp
  next
    case (Suc m')
    then have "take n (drop (m' * n) (concat xs @ r)) = xs ! m'"
      using Cons by simp
    then show ?thesis using Suc lx by simp
  qed
qed

lemma chunk_packed:
  assumes mr: "machine_ranges lay sizeT sreal lattice" and vs: "valid_indices lattice index_list"
    and len: "length buf = storage_bytes lay sizeT sreal (field_alloc_size lattice)"
    and m: "m < length index_list"
  shows "take sizeT (drop (m * sizeT) (packed lay sizeT sreal lattice buf index_list @ r))
           = elem_at lay sizeT sreal (nat (field_alloc_size lattice)) (nat (sint (index_list ! m))) buf"
proof -
  let ?f = "\<lambda>w. elem_at lay sizeT sreal (nat (field_alloc_size lattice)) (nat (sint w)) buf"
  have "\<forall>x \<in> set (map ?f index_list). length x = sizeT"
  proof
    fix x assume "x \<in> set (map ?f index_list)"
    then obtain k where k: "k < length index_list" and x: "x = ?f (index_list ! k)"
      by (auto simp add: in_set_conv_nth)
    have "valid_index lattice (sint (index_list ! k))" using mr vs k by (rule valid_indices_nth)
    then show "length x = sizeT" unfolding x using len by (rule length_elem_at_lattice)
  qed
  then have "take sizeT (drop (m * sizeT) (concat (map ?f index_list) @ r)) = map ?f index_list ! m"
    by (rule chunk_concat) (use m in simp)
  then show ?thesis using m by (simp add: packed_def)
qed

lemma placed_cong:
  assumes "\<forall>m < j. take sizeT (drop (m * sizeT) buffer) = take sizeT (drop (m * sizeT) buffer')"
  shows "placed lay sizeT sreal lattice buffer index_list j buf
           = placed lay sizeT sreal lattice buffer' index_list j buf"
  using assms by (induction j) simp_all

lemma placed_packed:
  assumes mr: "machine_ranges lay sizeT sreal lattice" and vs: "valid_indices lattice index_list"
    and len: "length buf = storage_bytes lay sizeT sreal (field_alloc_size lattice)"
    and j: "j \<le> length index_list"
  shows "placed lay sizeT sreal lattice (packed lay sizeT sreal lattice buf index_list @ r)
           index_list j buf = buf"
  using j
proof (induction j)
  case 0
  then show ?case by simp
next
  case (Suc j)
  then have j: "j < length index_list" by simp
  have vi: "valid_index lattice (sint (index_list ! j))" using mr vs j by (rule valid_indices_nth)
  show ?case
    using Suc with_elem_same_lattice [OF mr vi len] chunk_packed [OF mr vs len j, of r]
    by simp
qed

section \<open>Round trip through the byte buffer\<close>

text \<open>
  Claim C3.  On an allocated storage, with an index list whose entries are all below
  \<open>field_alloc_size\<close> and a byte buffer of \<open>length index_list * sizeof(T)\<close> bytes,
  \<^verbatim>\<open>gather_elements\<close> returns normally and \<^verbatim>\<open>place_elements\<close> from the buffer it
  filled, with the same index list, returns normally with the storage it started from:
  the buffer behind \<^verbatim>\<open>fieldbuf\<close> holds the same bytes, so \<^verbatim>\<open>get\<close> returns at every
  index what it returned before.  This holds in both layouts and for every element size.
  The side conditions are those of the machine: the sizes are \<^verbatim>\<open>int\<close> values
  (\<open>machine_ranges\<close>), as is the length of the index list, which the loop counts in an
  \<^verbatim>\<open>int\<close>.
\<close>

theorem gather_place_round_trip:
  assumes "machine_ranges lay sizeT sreal lattice"
    and "allocated lay sizeT sreal lattice st"
    and "valid_indices lattice index_list"
    and "int (length index_list) \<le> INT_MAX"
    and "length buffer = length index_list * sizeT"
  shows "\<exists>filled.
           gather_elements lay sizeT sreal st buffer index_list lattice = Inr filled \<and>
           length filled = length buffer \<and>
           place_elements lay sizeT sreal filled index_list lattice st = Inr st"
proof -
  from assms(2) obtain buf where buf: "fieldbuf st = Some buf"
    and len: "length buf = storage_bytes lay sizeT sreal (field_alloc_size lattice)"
    by (rule allocatedD)
  let ?filled = "packed lay sizeT sreal lattice buf index_list
                   @ drop (length index_list * sizeT) buffer"
  have room: "length index_list * sizeT \<le> length buffer" using assms(5) by simp
  have g: "gather_elements lay sizeT sreal st buffer index_list lattice = Inr ?filled"
    using assms(1,3) buf len room assms(4) by (rule gather_closed)
  have lf: "length ?filled = length buffer"
    using length_packed [OF assms(1,3) len] assms(5) by simp
  have room': "length index_list * sizeT \<le> length ?filled" using lf room by simp
  have "place_elements lay sizeT sreal ?filled index_list lattice st
          = Inr (st\<lparr>fieldbuf :=
              Some (placed lay sizeT sreal lattice ?filled index_list (length index_list) buf)\<rparr>)"
    using assms(1,3) buf len room' assms(4) by (rule place_closed)
  also have "placed lay sizeT sreal lattice ?filled index_list (length index_list) buf = buf"
    using assms(1,3) len by (rule placed_packed) simp
  also have "st\<lparr>fieldbuf := Some buf\<rparr> = st" using buf by simp
  finally show ?thesis using g lf by blast
qed

theorem gather_place_round_trip_witness:
  "machine_ranges SoA 4 2 \<lparr>field_alloc_size = 2\<rparr> \<and>
   allocated SoA 4 2 \<lparr>field_alloc_size = 2\<rparr>
     \<lparr>fieldbuf = Some (map Byte [1, 2, 3, 4, 5, 6, 7, 8])\<rparr> \<and>
   valid_indices \<lparr>field_alloc_size = 2\<rparr> [1, 0] \<and>
   int (length [1 :: 32 word, 0]) \<le> INT_MAX \<and>
   length (replicate 8 Undef) = length [1 :: 32 word, 0] * 4 \<and>
   (\<exists>filled.
      gather_elements SoA 4 2 \<lparr>fieldbuf = Some (map Byte [1, 2, 3, 4, 5, 6, 7, 8])\<rparr>
        (replicate 8 Undef) [1, 0] \<lparr>field_alloc_size = 2\<rparr> = Inr filled \<and>
      length filled = length (replicate 8 Undef :: memval list) \<and>
      place_elements SoA 4 2 filled [1, 0] \<lparr>field_alloc_size = 2\<rparr>
        \<lparr>fieldbuf = Some (map Byte [1, 2, 3, 4, 5, 6, 7, 8])\<rparr>
      = Inr \<lparr>fieldbuf = Some (map Byte [1, 2, 3, 4, 5, 6, 7, 8])\<rparr>)"
proof -
  have h1: "machine_ranges SoA 4 2 \<lparr>field_alloc_size = 2\<rparr>"
    by (simp add: machine_ranges_def t_elements_def INT_MAX_def)
  have h2: "allocated SoA 4 2 \<lparr>field_alloc_size = 2\<rparr>
              \<lparr>fieldbuf = Some (map Byte [1, 2, 3, 4, 5, 6, 7, 8])\<rparr>"
    by (simp add: allocated_def storage_bytes_def t_elements_def)
  have h3: "valid_indices \<lparr>field_alloc_size = 2\<rparr> [1, 0]"
    by (simp add: valid_indices_def)
  have h4: "int (length [1 :: 32 word, 0]) \<le> INT_MAX"
    by (simp add: INT_MAX_def)
  have h5: "length (replicate 8 Undef :: memval list) = length [1 :: 32 word, 0] * 4"
    by simp
  from gather_place_round_trip [OF h1 h2 h3 h4 h5] h1 h2 h3 h4 h5
  show ?thesis by blast
qed

section \<open>Releasing the buffer\<close>

text \<open>
  Claim C7.  \<^verbatim>\<open>free_field\<close> on a storage whose buffer pointer is null (already freed,
  or never allocated) hands nothing to \<^verbatim>\<open>free\<close> and leaves the pointer null; after
  any \<^verbatim>\<open>free_field\<close> the pointer is null; and a second \<^verbatim>\<open>free_field\<close> releases
  nothing and yields the state the first one left.  The function has no abnormal
  outcome.
\<close>

theorem free_field_idempotent:
  "free_field (st\<lparr>fieldbuf := None\<rparr>) = ([], st\<lparr>fieldbuf := None\<rparr>) \<and>
   fieldbuf (snd (free_field st)) = None \<and>
   free_field (snd (free_field st)) = ([], snd (free_field st))"
  by (simp add: free_field_def)

section \<open>One \<^verbatim>\<open>set\<close> seen through \<^verbatim>\<open>get\<close>\<close>

lemma set_effect:
  assumes mr: "machine_ranges lay sizeT sreal lattice"
    and al: "allocated lay sizeT sreal lattice st"
    and vi: "valid_index lattice i" and lv: "length v = sizeT"
  shows "\<exists>st'. field_storage_set lay sizeT sreal v i (field_alloc_size lattice) st = Inr st' \<and>
           allocated lay sizeT sreal lattice st' \<and>
           field_storage_get lay sizeT sreal st' i (field_alloc_size lattice)
             = Inr (kept lay sizeT sreal v) \<and>
           (\<forall>j. valid_index lattice j \<and> j \<noteq> i \<longrightarrow>
              field_storage_get lay sizeT sreal st' j (field_alloc_size lattice)
                = field_storage_get lay sizeT sreal st j (field_alloc_size lattice))"
proof -
  from al obtain buf where buf: "fieldbuf st = Some buf"
    and len: "length buf = storage_bytes lay sizeT sreal (field_alloc_size lattice)"
    by (rule allocatedD)
  let ?F = "nat (field_alloc_size lattice)"
  let ?b = "with_elem lay sizeT sreal ?F (nat i) v buf"
  let ?st = "st\<lparr>fieldbuf := Some ?b\<rparr>"
  have s: "field_storage_set lay sizeT sreal v i (field_alloc_size lattice) st = Inr ?st"
    using mr vi buf len lv by (rule set_allocated)
  have lb: "length ?b = storage_bytes lay sizeT sreal (field_alloc_size lattice)"
    using vi len lv by (rule length_with_elem_lattice)
  have fb: "fieldbuf ?st = Some ?b" by simp
  have a: "allocated lay sizeT sreal lattice ?st" using lb by (rule allocated_update)
  have same: "field_storage_get lay sizeT sreal ?st i (field_alloc_size lattice)
                = Inr (kept lay sizeT sreal v)"
    using get_allocated [OF mr vi fb lb] elem_with_same_lattice [OF mr vi len lv] by simp
  have other: "field_storage_get lay sizeT sreal ?st j (field_alloc_size lattice)
                 = field_storage_get lay sizeT sreal st j (field_alloc_size lattice)"
    if "valid_index lattice j" and "j \<noteq> i" for j
    using get_allocated [OF mr that(1) fb lb] get_allocated [OF mr that(1) buf len]
      elem_with_other_lattice [OF mr vi that len lv] by simp
  show ?thesis using s a same other by blast
qed

lemma get_returns:
  assumes mr: "machine_ranges lay sizeT sreal lattice"
    and al: "allocated lay sizeT sreal lattice st"
    and vi: "valid_index lattice i"
  shows "\<exists>w. field_storage_get lay sizeT sreal st i (field_alloc_size lattice) = Inr w \<and>
           length w = sizeT"
proof -
  from al obtain buf where buf: "fieldbuf st = Some buf"
    and len: "length buf = storage_bytes lay sizeT sreal (field_alloc_size lattice)"
    by (rule allocatedD)
  show ?thesis
    using get_allocated [OF mr vi buf len] length_elem_at_lattice [OF vi len] by simp
qed

lemma soa_index_distinct:
  assumes mr: "machine_ranges SoA sizeT sreal lattice"
    and vi: "valid_index lattice i" and vj: "valid_index lattice j" and ne: "j \<noteq> i"
    and e: "e < t_elements sizeT sreal" and e': "e' < t_elements sizeT sreal"
  shows "soa_index e (field_alloc_size lattice) i \<noteq> soa_index e' (field_alloc_size lattice) j"
proof -
  from vi obtain I F where i: "i = int I" and F: "field_alloc_size lattice = int F" and I: "I < F"
    by (rule valid_index_nat)
  from vj F have "0 \<le> j" and "j < int F" by (simp_all add: valid_index_def)
  then have J: "nat j < F" and j: "j = int (nat j)" by linarith+
  have ov: "int (sizeT div sreal) * int F \<le> INT_MAX"
    using machine_ranges_nat(3) [OF mr F] by simp
  have 1: "soa_index e (int F) (int I) = Inr (int (e * F + I))"
    using e I ov unfolding t_elements_def by (rule soa_index_ok)
  have 2: "soa_index e' (int F) (int (nat j)) = Inr (int (e' * F + nat j))"
    using e' J ov unfolding t_elements_def by (rule soa_index_ok)
  have "e * F + I \<noteq> e' * F + nat j"
  proof
    assume "e * F + I = e' * F + nat j"
    then have "(e * F + I) mod F = (e' * F + nat j) mod F" by simp
    then have "I = nat j" using I J by simp
    then show False using ne i j by simp
  qed
  then show ?thesis using 1 2 j unfolding i F by (metis Inr_inject of_nat_eq_iff)
qed

text \<open>
  Claim C9.  In either layout, on an allocated storage, \<^verbatim>\<open>set(v, i, field_alloc_size)\<close>
  with \<open>0 \<le> i < field_alloc_size\<close> returns normally, and for every other index \<open>j\<close> in
  that range \<^verbatim>\<open>get(j, field_alloc_size)\<close> returns afterwards what it returned
  before.  In the structure-of-arrays layout the scalar offsets
  \<^verbatim>\<open>e*field_alloc_size + i\<close> and \<^verbatim>\<open>e'*field_alloc_size + j\<close> of two distinct indices are
  never equal.  The side condition \<open>machine_ranges\<close> is that of the machine: the sizes
  are \<^verbatim>\<open>int\<close> values.
\<close>

theorem set_modifies_only_its_index:
  assumes "machine_ranges lay sizeT sreal lattice"
    and "allocated lay sizeT sreal lattice st"
    and "valid_index lattice i" and "valid_index lattice j" and "j \<noteq> i"
    and "length v = sizeT"
  shows "\<exists>st' w.
           field_storage_set lay sizeT sreal v i (field_alloc_size lattice) st = Inr st' \<and>
           field_storage_get lay sizeT sreal st j (field_alloc_size lattice) = Inr w \<and>
           field_storage_get lay sizeT sreal st' j (field_alloc_size lattice) = Inr w \<and>
           (lay = SoA \<longrightarrow>
              (\<forall>e < t_elements sizeT sreal. \<forall>e' < t_elements sizeT sreal.
                 soa_index e (field_alloc_size lattice) i
                   \<noteq> soa_index e' (field_alloc_size lattice) j))"
proof -
  from set_effect [OF assms(1,2,3,6)] obtain st' where
    s: "field_storage_set lay sizeT sreal v i (field_alloc_size lattice) st = Inr st'" and
    o: "field_storage_get lay sizeT sreal st' j (field_alloc_size lattice)
          = field_storage_get lay sizeT sreal st j (field_alloc_size lattice)"
    using assms(4,5) by blast
  from get_returns [OF assms(1,2,4)] obtain w where
    w: "field_storage_get lay sizeT sreal st j (field_alloc_size lattice) = Inr w" by blast
  have "soa_index e (field_alloc_size lattice) i \<noteq> soa_index e' (field_alloc_size lattice) j"
    if "lay = SoA" and "e < t_elements sizeT sreal" and "e' < t_elements sizeT sreal" for e e'
    using assms(1) that soa_index_distinct [OF _ assms(3,4,5) that(2,3)] by simp
  then show ?thesis using s o w by auto
qed

theorem set_modifies_only_its_index_witness:
  "machine_ranges SoA 4 2 \<lparr>field_alloc_size = 2\<rparr> \<and>
   allocated SoA 4 2 \<lparr>field_alloc_size = 2\<rparr>
     \<lparr>fieldbuf = Some (map Byte [1, 2, 3, 4, 5, 6, 7, 8])\<rparr> \<and>
   valid_index \<lparr>field_alloc_size = 2\<rparr> 0 \<and> valid_index \<lparr>field_alloc_size = 2\<rparr> 1 \<and>
   (1 :: int) \<noteq> 0 \<and> length (map Byte [9, 10, 11, 12]) = 4 \<and>
   (\<exists>st' w.
      field_storage_set SoA 4 2 (map Byte [9, 10, 11, 12]) 0 2
        \<lparr>fieldbuf = Some (map Byte [1, 2, 3, 4, 5, 6, 7, 8])\<rparr> = Inr st' \<and>
      field_storage_get SoA 4 2 \<lparr>fieldbuf = Some (map Byte [1, 2, 3, 4, 5, 6, 7, 8])\<rparr> 1 2
        = Inr w \<and>
      field_storage_get SoA 4 2 st' 1 2 = Inr w)"
proof -
  have h1: "machine_ranges SoA 4 2 \<lparr>field_alloc_size = 2\<rparr>"
    by (simp add: machine_ranges_def t_elements_def INT_MAX_def)
  have h2: "allocated SoA 4 2 \<lparr>field_alloc_size = 2\<rparr>
              \<lparr>fieldbuf = Some (map Byte [1, 2, 3, 4, 5, 6, 7, 8])\<rparr>"
    by (simp add: allocated_def storage_bytes_def t_elements_def)
  have h3: "valid_index \<lparr>field_alloc_size = 2\<rparr> 0" by (simp add: valid_index_def)
  have h4: "valid_index \<lparr>field_alloc_size = 2\<rparr> 1" by (simp add: valid_index_def)
  have h5: "(1 :: int) \<noteq> 0" by simp
  have h6: "length (map Byte [9, 10, 11, 12]) = 4" by simp
  have r: "\<exists>st' w.
      field_storage_set SoA 4 2 (map Byte [9, 10, 11, 12]) 0 2
        \<lparr>fieldbuf = Some (map Byte [1, 2, 3, 4, 5, 6, 7, 8])\<rparr> = Inr st' \<and>
      field_storage_get SoA 4 2 \<lparr>fieldbuf = Some (map Byte [1, 2, 3, 4, 5, 6, 7, 8])\<rparr> 1 2
        = Inr w \<and>
      field_storage_get SoA 4 2 st' 1 2 = Inr w"
    using set_modifies_only_its_index [OF h1 h2 h3 h4 h5 h6] by auto
  show ?thesis using h1 h2 h3 h4 h5 h6 r by blast
qed

section \<open>The two layouts compared\<close>

lemma machine_ranges_AoS:
  "machine_ranges SoA sizeT sreal lattice \<Longrightarrow> machine_ranges AoS sizeT sreal lattice"
  by (simp add: machine_ranges_def)

text \<open>
  What the structure-of-arrays layout keeps of an element: its whole scalars, the
  remaining bytes indeterminate.
\<close>

lemma soa_kept_split:
  assumes sr: "0 < sreal" and lv: "length v = sizeT"
  shows "soa_kept sizeT sreal v
           = take (sizeT div sreal * sreal) v @ replicate (sizeT - sizeT div sreal * sreal) Undef"
proof (rule nth_equalityI)
  have le: "sizeT div sreal * sreal \<le> sizeT" by simp
  show "length (soa_kept sizeT sreal v)
          = length (take (sizeT div sreal * sreal) v
                      @ replicate (sizeT - sizeT div sreal * sreal) Undef)"
    using le lv by (simp add: soa_kept_def)
  fix q assume "q < length (soa_kept sizeT sreal v)"
  then have q: "q < sizeT" by (simp add: soa_kept_def)
  have lt: "length (take (sizeT div sreal * sreal) v) = sizeT div sreal * sreal"
    using le lv by simp
  show "soa_kept sizeT sreal v ! q
          = (take (sizeT div sreal * sreal) v
               @ replicate (sizeT - sizeT div sreal * sreal) Undef) ! q"
  proof (cases "q < sizeT div sreal * sreal")
    case True
    then have "q div sreal < sizeT div sreal" using sr by (simp add: less_mult_imp_div_less)
    then have "soa_kept sizeT sreal v ! q = v ! q" using q by (simp add: soa_kept_def)
    moreover have "(take (sizeT div sreal * sreal) v
               @ replicate (sizeT - sizeT div sreal * sreal) Undef) ! q = v ! q"
      using True lt by (simp add: nth_append)
    ultimately show ?thesis by simp
  next
    case False
    then have ge: "sizeT div sreal * sreal \<le> q" by simp
    then have "sizeT div sreal * sreal div sreal \<le> q div sreal" by (rule div_le_mono)
    then have "\<not> q div sreal < sizeT div sreal" using sr by simp
    then have "soa_kept sizeT sreal v ! q = Undef" using q by (simp add: soa_kept_def)
    moreover have "(take (sizeT div sreal * sreal) v
               @ replicate (sizeT - sizeT div sreal * sreal) Undef) ! q = Undef"
      using False lt q ge by (simp add: nth_append)
    ultimately show ?thesis by simp
  qed
qed

lemma soa_write_prefix_only:
  assumes sr: "0 < sreal" and lv: "length v = sizeT" and lv': "length v' = sizeT"
    and eq: "take (sizeT div sreal * sreal) v' = take (sizeT div sreal * sreal) v"
  shows "soa_write sreal F I (sizeT div sreal) v' buf = soa_write sreal F I (sizeT div sreal) v buf"
proof -
  have "v' ! (e * sreal + r) = v ! (e * sreal + r)" if "e < sizeT div sreal" and "r < sreal" for e r
  proof -
    have "e * sreal + r < e * sreal + sreal" using that(2) by simp
    also have "\<dots> = (e + 1) * sreal" by simp
    also have "\<dots> \<le> sizeT div sreal * sreal" using that(1) by (intro mult_le_mono1) simp
    finally have lt: "e * sreal + r < sizeT div sreal * sreal" .
    have "v' ! (e * sreal + r) = take (sizeT div sreal * sreal) v' ! (e * sreal + r)"
      using lt by simp
    also have "\<dots> = take (sizeT div sreal * sreal) v ! (e * sreal + r)" using eq by simp
    also have "\<dots> = v ! (e * sreal + r)" using lt by simp
    finally show ?thesis .
  qed
  then show ?thesis using sr by (simp add: soa_write_def)
qed

lemma set_soa_prefix_only:
  assumes mr: "machine_ranges SoA sizeT sreal lattice"
    and al: "allocated SoA sizeT sreal lattice st" and vi: "valid_index lattice i"
    and lv: "length v = sizeT" and lv': "length v' = sizeT"
    and eq: "take (t_elements sizeT sreal * sreal) v' = take (t_elements sizeT sreal * sreal) v"
  shows "field_storage_set SoA sizeT sreal v' i (field_alloc_size lattice) st
           = field_storage_set SoA sizeT sreal v i (field_alloc_size lattice) st"
proof -
  from al obtain buf where buf: "fieldbuf st = Some buf"
    and len: "length buf = storage_bytes SoA sizeT sreal (field_alloc_size lattice)"
    by (rule allocatedD)
  have sr: "0 < sreal" using mr by (simp add: machine_ranges_def)
  have "with_elem SoA sizeT sreal (nat (field_alloc_size lattice)) (nat i) v' buf
          = with_elem SoA sizeT sreal (nat (field_alloc_size lattice)) (nat i) v buf"
    using soa_write_prefix_only [OF sr lv lv'] eq by (simp add: with_elem_def t_elements_def)
  then show ?thesis
    using set_allocated [OF mr vi buf len lv] set_allocated [OF mr vi buf len lv'] by simp
qed

lemma run_calls_related:
  assumes mr: "machine_ranges SoA sizeT sreal lattice"
    and vc: "\<forall>c \<in> set calls. valid_call sizeT lattice c"
    and rw: "reads_written W calls"
    and aa: "allocated AoS sizeT sreal lattice sta" and as: "allocated SoA sizeT sreal lattice sts"
    and rel: "\<forall>i \<in> W. valid_index lattice i \<and>
               (\<exists>a. field_storage_get AoS sizeT sreal sta i (field_alloc_size lattice) = Inr a \<and>
                    field_storage_get SoA sizeT sreal sts i (field_alloc_size lattice)
                      = Inr (kept SoA sizeT sreal a))"
  shows "\<exists>vs. run_calls AoS sizeT sreal lattice calls sta = Inr vs \<and>
               run_calls SoA sizeT sreal lattice calls sts = Inr (map (kept SoA sizeT sreal) vs) \<and>
               (\<forall>a \<in> set vs. length a = sizeT)"
  using vc rw aa as rel
proof (induction calls arbitrary: W sta sts)
  case Nil
  then show ?case by simp
next
  case (Cons c calls)
  have mra: "machine_ranges AoS sizeT sreal lattice" using mr by (rule machine_ranges_AoS)
  have rest: "\<forall>c \<in> set calls. valid_call sizeT lattice c" using Cons.prems(1) by simp
  show ?case
  proof (cases c)
    case (Get i)
    then have vi: "valid_index lattice i" using Cons.prems(1) by simp
    have iW: "i \<in> W" and rw': "reads_written W calls" using Cons.prems(2) Get by simp_all
    from Cons.prems(5) iW obtain a where
      a: "field_storage_get AoS sizeT sreal sta i (field_alloc_size lattice) = Inr a" and
      k: "field_storage_get SoA sizeT sreal sts i (field_alloc_size lattice)
            = Inr (kept SoA sizeT sreal a)" by blast
    have la: "length a = sizeT" using get_returns [OF mra Cons.prems(3) vi] a by auto
    from Cons.IH [OF rest rw' Cons.prems(3,4,5)] obtain vs where
      "run_calls AoS sizeT sreal lattice calls sta = Inr vs"
      "run_calls SoA sizeT sreal lattice calls sts = Inr (map (kept SoA sizeT sreal) vs)"
      "\<forall>a \<in> set vs. length a = sizeT" by blast
    then show ?thesis using Get a k la by simp
  next
    case (Set v i)
    then have vi: "valid_index lattice i" and lv: "length v = sizeT"
      using Cons.prems(1) by simp_all
    have rw': "reads_written (insert i W) calls" using Cons.prems(2) Set by simp
    from set_effect [OF mra Cons.prems(3) vi lv] obtain sta' where
      a1: "field_storage_set AoS sizeT sreal v i (field_alloc_size lattice) sta = Inr sta'" and
      a2: "allocated AoS sizeT sreal lattice sta'" and
      a3: "field_storage_get AoS sizeT sreal sta' i (field_alloc_size lattice)
             = Inr (kept AoS sizeT sreal v)" and
      a4: "\<And>j. valid_index lattice j \<Longrightarrow> j \<noteq> i \<Longrightarrow>
             field_storage_get AoS sizeT sreal sta' j (field_alloc_size lattice)
               = field_storage_get AoS sizeT sreal sta j (field_alloc_size lattice)"
      by blast
    from set_effect [OF mr Cons.prems(4) vi lv] obtain sts' where
      s1: "field_storage_set SoA sizeT sreal v i (field_alloc_size lattice) sts = Inr sts'" and
      s2: "allocated SoA sizeT sreal lattice sts'" and
      s3: "field_storage_get SoA sizeT sreal sts' i (field_alloc_size lattice)
             = Inr (kept SoA sizeT sreal v)" and
      s4: "\<And>j. valid_index lattice j \<Longrightarrow> j \<noteq> i \<Longrightarrow>
             field_storage_get SoA sizeT sreal sts' j (field_alloc_size lattice)
               = field_storage_get SoA sizeT sreal sts j (field_alloc_size lattice)"
      by blast
    have rel': "\<forall>j \<in> insert i W. valid_index lattice j \<and>
               (\<exists>a. field_storage_get AoS sizeT sreal sta' j (field_alloc_size lattice) = Inr a \<and>
                    field_storage_get SoA sizeT sreal sts' j (field_alloc_size lattice)
                      = Inr (kept SoA sizeT sreal a))"
    proof
      fix j assume j: "j \<in> insert i W"
      show "valid_index lattice j \<and>
               (\<exists>a. field_storage_get AoS sizeT sreal sta' j (field_alloc_size lattice) = Inr a \<and>
                    field_storage_get SoA sizeT sreal sts' j (field_alloc_size lattice)
                      = Inr (kept SoA sizeT sreal a))"
      proof (cases "j = i")
        case True
        then show ?thesis using vi a3 s3 by (simp add: kept_def)
      next
        case False
        then have jW: "j \<in> W" using j by simp
        then have vj: "valid_index lattice j" using Cons.prems(5) by blast
        show ?thesis using Cons.prems(5) jW a4 [OF vj False] s4 [OF vj False] by simp
      qed
    qed
    from Cons.IH [OF rest rw' a2 s2 rel'] show ?thesis using Set a1 s1 by simp
  qed
qed


text \<open>
  Claim C1, as amended.  Take an array-of-structures storage and a structure-of-arrays
  storage, both allocated, with any contents, and a sequence of \<^verbatim>\<open>set\<close> and \<^verbatim>\<open>get\<close>
  calls at indices \<open>0 \<le> i < field_alloc_size\<close> in which every \<^verbatim>\<open>get\<close> reads an index
  that an earlier \<^verbatim>\<open>set\<close> of the sequence wrote.  The sequence ends normally on both;
  each value the structure-of-arrays layout returns is the value the array-of-structures
  layout returns with its first \<open>sizeof(T)/sizeof(real_t)\<close> whole scalars kept and the
  remaining bytes indeterminate; the values are the same where \<open>sizeof(T)\<close> is a multiple
  of \<open>sizeof(real_t)\<close>.  A \<^verbatim>\<open>set\<close> of \<open>v\<close> followed by \<^verbatim>\<open>get\<close> at the same index returns
  exactly \<open>v\<close> in the array-of-structures layout, and the whole scalars of \<open>v\<close> in the
  structure-of-arrays layout, which is exactly \<open>v\<close> where \<open>sizeof(T)\<close> is a multiple of
  \<open>sizeof(real_t)\<close>; the structure-of-arrays \<^verbatim>\<open>set\<close> does not depend on the bytes of \<open>v\<close>
  after its whole scalars.  The side condition \<open>machine_ranges\<close> is that of the machine:
  the sizes are \<^verbatim>\<open>int\<close> values.
\<close>

theorem layouts_agree_on_whole_scalars:
  assumes "machine_ranges SoA sizeT sreal lattice"
    and "allocated AoS sizeT sreal lattice sta"
    and "allocated SoA sizeT sreal lattice sts"
    and "\<forall>c \<in> set calls. valid_call sizeT lattice c"
    and "reads_written {} calls"
    and "valid_index lattice i"
    and "length v = sizeT"
    and "length v' = sizeT"
    and "take (t_elements sizeT sreal * sreal) v' = take (t_elements sizeT sreal * sreal) v"
  shows "(\<exists>vs. run_calls AoS sizeT sreal lattice calls sta = Inr vs \<and>
               run_calls SoA sizeT sreal lattice calls sts
                 = Inr (map (\<lambda>a. take (t_elements sizeT sreal * sreal) a
                                  @ replicate (sizeT - t_elements sizeT sreal * sreal) Undef) vs) \<and>
               (sreal dvd sizeT \<longrightarrow> run_calls SoA sizeT sreal lattice calls sts = Inr vs)) \<and>
         (\<exists>sta'. field_storage_set AoS sizeT sreal v i (field_alloc_size lattice) sta = Inr sta' \<and>
                 field_storage_get AoS sizeT sreal sta' i (field_alloc_size lattice) = Inr v) \<and>
         (\<exists>sts'. field_storage_set SoA sizeT sreal v i (field_alloc_size lattice) sts = Inr sts' \<and>
                 field_storage_get SoA sizeT sreal sts' i (field_alloc_size lattice)
                   = Inr (take (t_elements sizeT sreal * sreal) v
                            @ replicate (sizeT - t_elements sizeT sreal * sreal) Undef) \<and>
                 (sreal dvd sizeT \<longrightarrow>
                    field_storage_get SoA sizeT sreal sts' i (field_alloc_size lattice) = Inr v)) \<and>
         field_storage_set SoA sizeT sreal v' i (field_alloc_size lattice) sts
           = field_storage_set SoA sizeT sreal v i (field_alloc_size lattice) sts"
proof -
  let ?cut = "\<lambda>a. take (t_elements sizeT sreal * sreal) a
                    @ replicate (sizeT - t_elements sizeT sreal * sreal) Undef"
  have mra: "machine_ranges AoS sizeT sreal lattice" using assms(1) by (rule machine_ranges_AoS)
  have sr: "0 < sreal" using assms(1) by (simp add: machine_ranges_def)
  have cut: "kept SoA sizeT sreal a = ?cut a" if "length a = sizeT" for a
    using soa_kept_split [OF sr that] by (simp add: kept_def t_elements_def)
  have whole: "?cut a = a" if "length a = sizeT" and "sreal dvd sizeT" for a
    using that cut [OF that(1)] sr by (simp add: kept_def soa_kept_whole)
  from run_calls_related [OF assms(1,4,5,2,3)] obtain vs where
    r1: "run_calls AoS sizeT sreal lattice calls sta = Inr vs" and
    r2: "run_calls SoA sizeT sreal lattice calls sts = Inr (map (kept SoA sizeT sreal) vs)" and
    r3: "\<forall>a \<in> set vs. length a = sizeT" by auto
  have m1: "map (kept SoA sizeT sreal) vs = map ?cut vs"
    using r3 cut by (intro map_cong) simp_all
  have m2: "map ?cut vs = vs" if "sreal dvd sizeT"
    using r3 whole that by (intro map_idI) simp
  have seq: "\<exists>vs. run_calls AoS sizeT sreal lattice calls sta = Inr vs \<and>
               run_calls SoA sizeT sreal lattice calls sts = Inr (map ?cut vs) \<and>
               (sreal dvd sizeT \<longrightarrow> run_calls SoA sizeT sreal lattice calls sts = Inr vs)"
    using r1 r2 m1 m2 by auto
  have aos: "\<exists>sta'. field_storage_set AoS sizeT sreal v i (field_alloc_size lattice) sta = Inr sta' \<and>
                 field_storage_get AoS sizeT sreal sta' i (field_alloc_size lattice) = Inr v"
    using set_effect [OF mra assms(2,6,7)] by (auto simp add: kept_def)
  have soa: "\<exists>sts'. field_storage_set SoA sizeT sreal v i (field_alloc_size lattice) sts = Inr sts' \<and>
                 field_storage_get SoA sizeT sreal sts' i (field_alloc_size lattice) = Inr (?cut v) \<and>
                 (sreal dvd sizeT \<longrightarrow>
                    field_storage_get SoA sizeT sreal sts' i (field_alloc_size lattice) = Inr v)"
    using set_effect [OF assms(1,3,6,7)] cut [OF assms(7)] whole [OF assms(7)] by auto
  have pre: "field_storage_set SoA sizeT sreal v' i (field_alloc_size lattice) sts
               = field_storage_set SoA sizeT sreal v i (field_alloc_size lattice) sts"
    using assms(1,3,6,7,8,9) by (rule set_soa_prefix_only)
  show ?thesis using seq aos soa pre by blast
qed

theorem layouts_agree_on_whole_scalars_witness:
  "(\<exists>vs. run_calls AoS 4 2 \<lparr>field_alloc_size = 2\<rparr>
            [Set (map Byte [1, 2, 3, 4]) 1, Get 1, Set (map Byte [5, 6, 7, 8]) 0, Get 0, Get 1]
            \<lparr>fieldbuf = Some (map Byte [11, 12, 13, 14, 15, 16, 17, 18])\<rparr> = Inr vs \<and>
         run_calls SoA 4 2 \<lparr>field_alloc_size = 2\<rparr>
            [Set (map Byte [1, 2, 3, 4]) 1, Get 1, Set (map Byte [5, 6, 7, 8]) 0, Get 0, Get 1]
            \<lparr>fieldbuf = Some (map Byte [21, 22, 23, 24, 25, 26, 27, 28])\<rparr> = Inr vs) \<and>
   (\<exists>sts'. field_storage_set SoA 4 2 (map Byte [1, 2, 3, 4]) 1 2
              \<lparr>fieldbuf = Some (map Byte [21, 22, 23, 24, 25, 26, 27, 28])\<rparr> = Inr sts' \<and>
           field_storage_get SoA 4 2 sts' 1 2 = Inr (map Byte [1, 2, 3, 4]))"
proof -
  let ?lat = "\<lparr>field_alloc_size = 2\<rparr>"
  let ?sta = "\<lparr>fieldbuf = Some (map Byte [11, 12, 13, 14, 15, 16, 17, 18])\<rparr>"
  let ?sts = "\<lparr>fieldbuf = Some (map Byte [21, 22, 23, 24, 25, 26, 27, 28])\<rparr>"
  let ?calls = "[Set (map Byte [1, 2, 3, 4]) 1, Get 1, Set (map Byte [5, 6, 7, 8]) 0, Get 0, Get 1]"
  have h1: "machine_ranges SoA 4 2 ?lat"
    by (simp add: machine_ranges_def t_elements_def INT_MAX_def)
  have h2: "allocated AoS 4 2 ?lat ?sta"
    by (simp add: allocated_def storage_bytes_def)
  have h3: "allocated SoA 4 2 ?lat ?sts"
    by (simp add: allocated_def storage_bytes_def t_elements_def)
  have h4: "\<forall>c \<in> set ?calls. valid_call 4 ?lat c"
    by (simp add: valid_index_def)
  have h5: "reads_written {} ?calls" by simp
  have h6: "valid_index ?lat 1" by (simp add: valid_index_def)
  have h7: "length (map Byte [1, 2, 3, 4]) = 4" by simp
  have h9: "take (t_elements 4 2 * 2) (map Byte [1, 2, 3, 4])
              = take (t_elements 4 2 * 2) (map Byte [1, 2, 3, 4])" by simp
  have d: "(2 :: nat) dvd 4" by simp
  show ?thesis
    using layouts_agree_on_whole_scalars [OF h1 h2 h3 h4 h5 h6 h7 h7 h9] d by auto
qed

text \<open>
  Claim C1 as stated fails in two ways.  Where \<open>sizeof(T)\<close> is not a multiple of
  \<open>sizeof(real_t)\<close>: with \<open>sizeof(T) = 3\<close>, \<open>sizeof(real_t) = 2\<close> and one element, the
  structure-of-arrays \<^verbatim>\<open>allocate_field\<close> reserves two bytes and \<^verbatim>\<open>set\<close> copies one
  scalar; the third byte of the element is stored nowhere, two elements that differ in
  it leave the same buffer, and \<^verbatim>\<open>get\<close> returns it indeterminate, while the
  array-of-structures layout returns all three bytes.  And for a \<^verbatim>\<open>get\<close> that no
  \<^verbatim>\<open>set\<close> precedes, also where the size is a multiple: on buffers holding the same eight
  bytes, with \<open>sizeof(T) = 4\<close> and \<open>sizeof(real_t) = 2\<close>, element \<open>0\<close> is the first four
  bytes in one layout and the bytes \<open>1, 2, 5, 6\<close> in the other.
\<close>

theorem layouts_differ_counterexample:
  "allocate_field AoS 3 2 True \<lparr>field_alloc_size = 1\<rparr> \<lparr>fieldbuf = None\<rparr>
     = Inr \<lparr>fieldbuf = Some (replicate 3 Undef)\<rparr> \<and>
   allocate_field SoA 3 2 True \<lparr>field_alloc_size = 1\<rparr> \<lparr>fieldbuf = None\<rparr>
     = Inr \<lparr>fieldbuf = Some (replicate 2 Undef)\<rparr> \<and>
   run_calls AoS 3 2 \<lparr>field_alloc_size = 1\<rparr> [Set [Byte 1, Byte 2, Byte 3] 0, Get 0]
     \<lparr>fieldbuf = Some (replicate 3 Undef)\<rparr> = Inr [[Byte 1, Byte 2, Byte 3]] \<and>
   run_calls SoA 3 2 \<lparr>field_alloc_size = 1\<rparr> [Set [Byte 1, Byte 2, Byte 3] 0, Get 0]
     \<lparr>fieldbuf = Some (replicate 2 Undef)\<rparr> = Inr [[Byte 1, Byte 2, Undef]] \<and>
   field_storage_set SoA 3 2 [Byte 1, Byte 2, Byte 3] 0 1 \<lparr>fieldbuf = Some (replicate 2 Undef)\<rparr>
     = field_storage_set SoA 3 2 [Byte 1, Byte 2, Byte 4] 0 1
         \<lparr>fieldbuf = Some (replicate 2 Undef)\<rparr> \<and>
   run_calls AoS 4 2 \<lparr>field_alloc_size = 2\<rparr> [Get 0]
     \<lparr>fieldbuf = Some (map Byte [1, 2, 3, 4, 5, 6, 7, 8])\<rparr> = Inr [map Byte [1, 2, 3, 4]] \<and>
   run_calls SoA 4 2 \<lparr>field_alloc_size = 2\<rparr> [Get 0]
     \<lparr>fieldbuf = Some (map Byte [1, 2, 3, 4, 5, 6, 7, 8])\<rparr> = Inr [map Byte [1, 2, 5, 6]]"
  by (simp add: allocate_field_def malloc_def malloc_request_def size_t_of_def t_elements_def
      field_storage_set_def field_storage_get_def set_aos_def get_aos_def set_soa_def get_soa_def
      set_soa_body_def get_soa_body_def soa_index_def int_result_def INT_MAX_def INT_MIN_def
      load_at_def store_at_def for_loop.simps)

section \<open>Allocation\<close>

lemma malloc_request_exact:
  assumes "0 \<le> field_alloc_size lattice" and "int sizeT * field_alloc_size lattice < 2 ^ 64"
  shows "malloc_request lay sizeT sreal lattice
           = storage_bytes lay sizeT sreal (field_alloc_size lattice)"
proof -
  obtain F where F: "field_alloc_size lattice = int F"
    using assms(1) by (metis nat_0_le)
  have a: "int (sizeT * F) < 2 ^ 64" using assms(2) F by simp
  have "sizeT div sreal * sreal \<le> sizeT" by simp
  then have "sizeT div sreal * sreal * F \<le> sizeT * F" by (rule mult_le_mono1)
  then have "int (sizeT div sreal * sreal * F) \<le> int (sizeT * F)" by (rule of_nat_mono)
  then have b: "int (sizeT div sreal * sreal * F) < 2 ^ 64" using a by simp
  have m: "nat (int n mod 2 ^ 64) = n" if "int n < 2 ^ 64" for n
    using that by simp
  show ?thesis
  proof (cases lay)
    case AoS
    have "nat (int (sizeT * F) mod 2 ^ 64) = sizeT * F" using a by (rule m)
    then show ?thesis using AoS F
      by (simp add: malloc_request_def size_t_of_def storage_bytes_def)
  next
    case SoA
    have "nat (int (sizeT div sreal * sreal * F) mod 2 ^ 64) = sizeT div sreal * sreal * F"
      using b by (rule m)
    then show ?thesis using SoA F
      by (simp add: malloc_request_def size_t_of_def storage_bytes_def t_elements_def)
  qed
qed

text \<open>
  Claim C8.  \<^verbatim>\<open>allocate_field\<close> asks \<^verbatim>\<open>malloc\<close> for the bytes of \<open>field_alloc_size\<close>
  elements in the layout compiled in.  When \<^verbatim>\<open>malloc\<close> returns the null pointer the
  call ends in \<^verbatim>\<open>exit(1)\<close> after the message; no state is returned.  When the call
  returns, \<^verbatim>\<open>fieldbuf\<close> is not null; the block has exactly the bytes of the layout, and
  \<^verbatim>\<open>get\<close> at every index from \<open>0\<close> up to \<open>field_alloc_size\<close> returns an element.  The
  size \<open>sizeof(T) * field_alloc_size\<close> is taken to fit \<^verbatim>\<open>size_t\<close>, in which the request
  is computed.
\<close>

theorem allocate_field_outcome:
  assumes "0 \<le> field_alloc_size lattice"
    and "int sizeT * field_alloc_size lattice < 2 ^ 64"
    and "machine_ranges lay sizeT sreal lattice"
    and "valid_index lattice i"
  shows "allocate_field lay sizeT sreal False lattice st
           = Inl (Exit (''Failure in field memory allocation'' @ [CHR 0x0A]) 1) \<and>
         (\<exists>st'. allocate_field lay sizeT sreal True lattice st = Inr st' \<and>
            fieldbuf st' \<noteq> None \<and>
            allocated lay sizeT sreal lattice st' \<and>
            (\<exists>w. field_storage_get lay sizeT sreal st' i (field_alloc_size lattice) = Inr w \<and>
                 length w = sizeT)) \<and>
         (allocate_field lay sizeT sreal available lattice st = Inr st'' \<longrightarrow>
            available \<and> fieldbuf st'' \<noteq> None)"
proof -
  let ?n = "storage_bytes lay sizeT sreal (field_alloc_size lattice)"
  let ?st = "st\<lparr>fieldbuf := Some (replicate ?n Undef)\<rparr>"
  have rq: "malloc_request lay sizeT sreal lattice = ?n"
    using assms(1,2) by (rule malloc_request_exact)
  have f: "allocate_field lay sizeT sreal False lattice st
             = Inl (Exit (''Failure in field memory allocation'' @ [CHR 0x0A]) 1)"
    by (simp add: allocate_field_def malloc_def)
  have t: "allocate_field lay sizeT sreal True lattice st = Inr ?st"
    by (simp add: allocate_field_def malloc_def rq)
  have al: "allocated lay sizeT sreal lattice ?st"
    by (rule allocated_update) simp
  have g: "\<exists>w. field_storage_get lay sizeT sreal ?st i (field_alloc_size lattice) = Inr w \<and>
             length w = sizeT"
    using assms(3) al assms(4) by (rule get_returns)
  have r: "allocate_field lay sizeT sreal available lattice st = Inr st'' \<longrightarrow>
             available \<and> fieldbuf st'' \<noteq> None"
    by (cases available) (auto simp add: allocate_field_def malloc_def)
  have nn: "fieldbuf ?st \<noteq> None" by simp
  show ?thesis using f t nn al g r by blast
qed

theorem allocate_field_outcome_witness:
  "allocate_field SoA 4 2 False \<lparr>field_alloc_size = 2\<rparr> \<lparr>fieldbuf = None\<rparr>
     = Inl (Exit (''Failure in field memory allocation'' @ [CHR 0x0A]) 1) \<and>
   (\<exists>st'. allocate_field SoA 4 2 True \<lparr>field_alloc_size = 2\<rparr> \<lparr>fieldbuf = None\<rparr> = Inr st' \<and>
      fieldbuf st' \<noteq> None \<and>
      allocated SoA 4 2 \<lparr>field_alloc_size = 2\<rparr> st' \<and>
      (\<exists>w. field_storage_get SoA 4 2 st' 1 2 = Inr w \<and> length w = 4))"
proof -
  let ?lat = "\<lparr>field_alloc_size = 2\<rparr>"
  have h1: "0 \<le> field_alloc_size ?lat" by simp
  have h2: "int 4 * field_alloc_size ?lat < 2 ^ 64" by simp
  have h3: "machine_ranges SoA 4 2 ?lat"
    by (simp add: machine_ranges_def t_elements_def INT_MAX_def)
  have h4: "valid_index ?lat 1" by (simp add: valid_index_def)
  show ?thesis
    using allocate_field_outcome [OF h1 h2 h3 h4, of "\<lparr>fieldbuf = None\<rparr>"] by simp
qed

section \<open>Bounds of the accesses\<close>

lemma soa_index_in_buffer:
  assumes mr: "machine_ranges SoA sizeT sreal lattice" and vi: "valid_index lattice i"
    and e: "e < t_elements sizeT sreal"
  shows "\<exists>k. soa_index e (field_alloc_size lattice) i = Inr k \<and> 0 \<le> k \<and>
           k < int (t_elements sizeT sreal) * field_alloc_size lattice \<and>
           (nat k + 1) * sreal \<le> storage_bytes SoA sizeT sreal (field_alloc_size lattice)"
proof -
  from vi obtain I F where i: "i = int I" and F: "field_alloc_size lattice = int F" and I: "I < F"
    by (rule valid_index_nat)
  have e': "e < sizeT div sreal" using e by (simp add: t_elements_def)
  have ov: "int (sizeT div sreal) * int F \<le> INT_MAX"
    using machine_ranges_nat(3) [OF mr F] by simp
  have 1: "soa_index e (int F) (int I) = Inr (int (e * F + I))"
    using e' I ov by (rule soa_index_ok)
  have b: "e * F + I + 1 \<le> sizeT div sreal * F" using e' I by (rule soa_slot_bound)
  then have "int (e * F + I) < int (sizeT div sreal * F)" by linarith
  then have 2: "int (e * F + I) < int (t_elements sizeT sreal) * int F"
    by (simp add: t_elements_def)
  have "nat (int (e * F + I)) = e * F + I" by (rule nat_int)
  then have 3: "(nat (int (e * F + I)) + 1) * sreal \<le> storage_bytes SoA sizeT sreal (int F)"
    using soa_slot_in_buf [OF e' I, of sreal] by (simp only: storage_bytes_nat)
  have 0: "0 \<le> int (e * F + I)" by simp
  show ?thesis unfolding i F using 1 0 2 3 by blast
qed

text \<open>
  Claim C10, as amended.  In the structure-of-arrays layout \<^verbatim>\<open>get\<close> and \<^verbatim>\<open>set\<close> fail
  their assertion, before any access, when the index is not below \<open>field_alloc_size\<close>.
  For an index \<open>i\<close> with \<open>0 \<le> i < field_alloc_size\<close>, and a field whose scalar count
  \<open>(sizeof(T)/sizeof(real_t)) * field_alloc_size\<close> is an \<^verbatim>\<open>int\<close>, every offset
  \<^verbatim>\<open>e*field_alloc_size + i\<close> with \<open>e < sizeof(T)/sizeof(real_t)\<close> is computed without
  overflow and names a scalar inside the buffer that \<^verbatim>\<open>allocate_field\<close> reserves, and
  both calls return.  The array-of-structures \<^verbatim>\<open>get\<close> and \<^verbatim>\<open>set\<close> never fail an
  assertion and do not depend on \<open>field_alloc_size\<close>.
\<close>

theorem soa_accesses_stay_in_buffer:
  assumes "machine_ranges SoA sizeT sreal lattice"
    and "allocated SoA sizeT sreal lattice st"
    and "valid_index lattice i"
    and "length v = sizeT"
    and "e < t_elements sizeT sreal"
    and "\<not> i' < fas'"
  shows "get_soa sizeT sreal st' i' fas' = Inl Assertion_failed \<and>
         set_soa sizeT sreal v' i' fas' st' = Inl Assertion_failed \<and>
         (\<exists>k. soa_index e (field_alloc_size lattice) i = Inr k \<and> 0 \<le> k \<and>
            k < int (t_elements sizeT sreal) * field_alloc_size lattice \<and>
            (nat k + 1) * sreal \<le> storage_bytes SoA sizeT sreal (field_alloc_size lattice)) \<and>
         (\<exists>w. get_soa sizeT sreal st i (field_alloc_size lattice) = Inr w) \<and>
         (\<exists>st''. set_soa sizeT sreal v i (field_alloc_size lattice) st = Inr st'') \<and>
         get_aos sizeT st' j fas' \<noteq> Inl Assertion_failed \<and>
         set_aos sizeT v' j fas' st' \<noteq> Inl Assertion_failed \<and>
         get_aos sizeT st' j fas' = get_aos sizeT st' j fas'' \<and>
         set_aos sizeT v' j fas' st' = set_aos sizeT v' j fas'' st'"
proof -
  have a: "get_soa sizeT sreal st' i' fas' = Inl Assertion_failed"
    using assms(6) by (simp add: get_soa_def)
  have b: "set_soa sizeT sreal v' i' fas' st' = Inl Assertion_failed"
    using assms(6) by (simp add: set_soa_def)
  note c = soa_index_in_buffer [OF assms(1,3,5)]
  have d: "\<exists>w. get_soa sizeT sreal st i (field_alloc_size lattice) = Inr w"
    using get_returns [OF assms(1,2,3)] by (auto simp add: field_storage_get_def)
  have e: "\<exists>st''. set_soa sizeT sreal v i (field_alloc_size lattice) st = Inr st''"
    using set_effect [OF assms(1,2,3,4)] by (auto simp add: field_storage_set_def)
  have f: "get_aos sizeT st' j fas' \<noteq> Inl Assertion_failed"
    by (simp add: get_aos_def load_at_def split: option.splits)
  have g: "set_aos sizeT v' j fas' st' \<noteq> Inl Assertion_failed"
    by (simp add: set_aos_def store_at_def split: option.splits)
  have h: "get_aos sizeT st' j fas' = get_aos sizeT st' j fas''"
    by (simp add: get_aos_def)
  have k: "set_aos sizeT v' j fas' st' = set_aos sizeT v' j fas'' st'"
    by (simp add: set_aos_def)
  show ?thesis using a b c d e f g h k by blast
qed

theorem soa_accesses_stay_in_buffer_witness:
  "get_soa 4 2 \<lparr>fieldbuf = Some (replicate 8 Undef)\<rparr> 2 2 = Inl Assertion_failed \<and>
   set_soa 4 2 (map Byte [1, 2, 3, 4]) 2 2 \<lparr>fieldbuf = Some (replicate 8 Undef)\<rparr>
     = Inl Assertion_failed \<and>
   (\<exists>k. soa_index 1 2 1 = Inr k \<and> 0 \<le> k \<and> k < int (t_elements 4 2) * 2 \<and>
      (nat k + 1) * 2 \<le> storage_bytes SoA 4 2 2) \<and>
   (\<exists>w. get_soa 4 2 \<lparr>fieldbuf = Some (replicate 8 Undef)\<rparr> 1 2 = Inr w) \<and>
   (\<exists>st''. set_soa 4 2 (map Byte [1, 2, 3, 4]) 1 2 \<lparr>fieldbuf = Some (replicate 8 Undef)\<rparr>
      = Inr st'')"
proof -
  let ?lat = "\<lparr>field_alloc_size = 2\<rparr>"
  let ?st = "\<lparr>fieldbuf = Some (replicate 8 Undef)\<rparr>"
  have h1: "machine_ranges SoA 4 2 ?lat"
    by (simp add: machine_ranges_def t_elements_def INT_MAX_def)
  have h2: "allocated SoA 4 2 ?lat ?st"
    by (simp add: allocated_def storage_bytes_def t_elements_def)
  have h3: "valid_index ?lat 1" by (simp add: valid_index_def)
  have h4: "length (map Byte [1, 2, 3, 4]) = 4" by simp
  have h5: "1 < t_elements 4 2" by (simp add: t_elements_def)
  have h6: "\<not> (2 :: int) < 2" by simp
  show ?thesis
    using soa_accesses_stay_in_buffer [OF h1 h2 h3 h4 h5 h6, of ?st "map Byte [1, 2, 3, 4]"]
    by simp
qed

text \<open>
  Claim C10 as stated fails for a negative index: \<open>-1 < field_alloc_size\<close> passes the
  assertion, and the first access is at offset \<open>-1\<close>, before the buffer.  It also
  fails where the scalar count exceeds \<^verbatim>\<open>INT_MAX\<close>: the offset of a valid index
  overflows.
\<close>

theorem soa_index_out_of_buffer_counterexample:
  "(- 1 :: int) < 2 \<and>
   allocated SoA 1 1 \<lparr>field_alloc_size = 2\<rparr> \<lparr>fieldbuf = Some [Byte 7, Byte 9]\<rparr> \<and>
   soa_index 0 2 (- 1) = Inr (- 1) \<and>
   get_soa 1 1 \<lparr>fieldbuf = Some [Byte 7, Byte 9]\<rparr> (- 1) 2 = Inl Undefined_behaviour \<and>
   set_soa 1 1 [Byte 5] (- 1) 2 \<lparr>fieldbuf = Some [Byte 7, Byte 9]\<rparr> = Inl Undefined_behaviour \<and>
   valid_index \<lparr>field_alloc_size = 2147483647\<rparr> 2147483646 \<and>
   1 < t_elements 8 4 \<and>
   soa_index 1 2147483647 2147483646 = Inl Int_overflow"
  by (simp add: allocated_def storage_bytes_def t_elements_def valid_index_def
      set_soa_def get_soa_def set_soa_body_def get_soa_body_def soa_index_def int_result_def
      INT_MAX_def INT_MIN_def load_at_def store_at_def for_loop.simps)

section \<open>Order and extent of packing and unpacking\<close>

lemma chunk_of_prefix:
  assumes "(m + 1) * n \<le> b" and "b \<le> length xs"
  shows "take n (drop (m * n) (take b xs @ r)) = take n (drop (m * n) xs)"
proof -
  have a: "m * n + n \<le> b" using assms(1) by simp
  have l: "length (take b xs) = b" using assms(2) by simp
  have "drop (m * n) (take b xs @ r) = drop (m * n) (take b xs) @ r"
    using a l by simp
  moreover have "n \<le> length (drop (m * n) (take b xs))" using a l by simp
  ultimately have "take n (drop (m * n) (take b xs @ r)) = take n (drop (m * n) (take b xs))"
    by simp
  also have "\<dots> = take n (take (b - m * n) (drop (m * n) xs))" by (simp only: drop_take)
  also have "\<dots> = take n (drop (m * n) xs)" using a by (simp add: min_def)
  finally show ?thesis .
qed

lemma placed_prefix:
  assumes "j \<le> L" and "L * sizeT \<le> length buffer"
  shows "placed lay sizeT sreal lattice (take (L * sizeT) buffer @ r) index_list j buf
           = placed lay sizeT sreal lattice buffer index_list j buf"
proof (rule placed_cong, intro allI impI)
  fix m assume "m < j"
  then have "m + 1 \<le> L" using assms(1) by simp
  then have "(m + 1) * sizeT \<le> L * sizeT" by (rule mult_le_mono1)
  then show "take sizeT (drop (m * sizeT) (take (L * sizeT) buffer @ r))
               = take sizeT (drop (m * sizeT) buffer)"
    using assms(2) by (rule chunk_of_prefix)
qed

lemma sint_neq:
  fixes a b :: "32 word"
  shows "a \<noteq> b \<Longrightarrow> sint a \<noteq> sint b"
  by (metis signed_word_eqI)

lemma placed_last:
  assumes mr: "machine_ranges lay sizeT sreal lattice" and vs: "valid_indices lattice index_list"
    and len: "length buf = storage_bytes lay sizeT sreal (field_alloc_size lattice)"
    and room: "length index_list * sizeT \<le> length buffer"
    and jm: "j < m" and m: "m \<le> length index_list"
    and last: "index_list ! j \<notin> set (drop (Suc j) index_list)"
  shows "elem_at lay sizeT sreal (nat (field_alloc_size lattice)) (nat (sint (index_list ! j)))
           (placed lay sizeT sreal lattice buffer index_list m buf)
         = kept lay sizeT sreal (take sizeT (drop (j * sizeT) buffer))"
  using jm m
proof (induction m)
  case 0
  then show ?case by simp
next
  case (Suc m)
  then have ml: "m < length index_list" and jl: "j < length index_list" by simp_all
  have vj: "valid_index lattice (sint (index_list ! j))" using mr vs jl by (rule valid_indices_nth)
  have vm: "valid_index lattice (sint (index_list ! m))" using mr vs ml by (rule valid_indices_nth)
  have "(m + 1) * sizeT \<le> length index_list * sizeT"
    using ml by (intro mult_le_mono1) simp
  then have "(m + 1) * sizeT \<le> length buffer" using room by simp
  then have lc: "length (take sizeT (drop (m * sizeT) buffer)) = sizeT" by (rule length_load)
  have lp: "length (placed lay sizeT sreal lattice buffer index_list m buf)
              = storage_bytes lay sizeT sreal (field_alloc_size lattice)"
    using mr vs len room by (rule length_placed) (use ml in simp)
  show ?case
  proof (cases "m = j")
    case True
    then show ?thesis
      using elem_with_same_lattice [OF mr vm lp lc] by simp
  next
    case False
    then have jm': "j < m" using Suc.prems(1) by simp
    have "index_list ! m \<in> set (drop (Suc j) index_list)"
      using jm' ml by (auto simp add: in_set_conv_nth intro!: exI [of _ "m - Suc j"])
    then have "index_list ! j \<noteq> index_list ! m" using last by auto
    then have ne: "sint (index_list ! j) \<noteq> sint (index_list ! m)" by (rule sint_neq)
    have "elem_at lay sizeT sreal (nat (field_alloc_size lattice)) (nat (sint (index_list ! j)))
            (placed lay sizeT sreal lattice buffer index_list (Suc m) buf)
          = elem_at lay sizeT sreal (nat (field_alloc_size lattice)) (nat (sint (index_list ! j)))
            (placed lay sizeT sreal lattice buffer index_list m buf)"
      using elem_with_other_lattice [OF mr vm vj ne lp lc] by simp
    then show ?thesis using Suc.IH [OF jm'] ml by simp
  qed
qed


text \<open>
  Claim C4.  For an index list of length \<open>L\<close> on an allocated storage, with entries
  below \<open>field_alloc_size\<close>, and a buffer of at least \<open>L * sizeof(T)\<close> bytes:

  \<^item> \<^verbatim>\<open>gather_elements\<close> returns the buffer with the same length, its bytes from
    \<open>L * sizeof(T)\<close> on untouched, and for every position \<open>j < L\<close> the bytes
    \<open>[j*sizeof(T), (j+1)*sizeof(T))\<close> equal to what \<^verbatim>\<open>get\<close> returns at \<open>index_list[j]\<close>;
  \<^item> \<^verbatim>\<open>place_elements\<close> returns normally, with the same result whatever follows the
    first \<open>L * sizeof(T)\<close> bytes of the buffer; where \<open>index_list[j]\<close> does not occur
    again later in the list, \<^verbatim>\<open>get\<close> at \<open>index_list[j]\<close> returns afterwards what it
    returns after a single \<^verbatim>\<open>set\<close> of the \<open>j\<close>-th packed element at that index, which
    is that element itself in the array-of-structures layout and wherever \<open>sizeof(T)\<close>
    is a multiple of \<open>sizeof(real_t)\<close>.

  The side conditions are those of the machine: the sizes and the length of the index
  list are \<^verbatim>\<open>int\<close> values.
\<close>

theorem gather_place_keep_index_order:
  assumes "machine_ranges lay sizeT sreal lattice"
    and "allocated lay sizeT sreal lattice st"
    and "valid_indices lattice index_list"
    and "int (length index_list) \<le> INT_MAX"
    and "length index_list * sizeT \<le> length buffer"
    and "j < length index_list"
  shows "\<exists>filled st'.
           gather_elements lay sizeT sreal st buffer index_list lattice = Inr filled \<and>
           length filled = length buffer \<and>
           drop (length index_list * sizeT) filled = drop (length index_list * sizeT) buffer \<and>
           Inr (take sizeT (drop (j * sizeT) filled))
             = field_storage_get lay sizeT sreal st (sint (index_list ! j))
                 (field_alloc_size lattice) \<and>
           place_elements lay sizeT sreal buffer index_list lattice st = Inr st' \<and>
           place_elements lay sizeT sreal (take (length index_list * sizeT) buffer @ rest)
             index_list lattice st = Inr st' \<and>
           (index_list ! j \<notin> set (drop (Suc j) index_list) \<longrightarrow>
              (\<exists>st1. field_storage_set lay sizeT sreal (take sizeT (drop (j * sizeT) buffer))
                        (sint (index_list ! j)) (field_alloc_size lattice) st = Inr st1 \<and>
                     field_storage_get lay sizeT sreal st' (sint (index_list ! j))
                         (field_alloc_size lattice)
                       = field_storage_get lay sizeT sreal st1 (sint (index_list ! j))
                           (field_alloc_size lattice)) \<and>
              (lay = AoS \<or> sreal dvd sizeT \<longrightarrow>
                 field_storage_get lay sizeT sreal st' (sint (index_list ! j))
                     (field_alloc_size lattice)
                   = Inr (take sizeT (drop (j * sizeT) buffer))))"
proof -
  let ?L = "length index_list"
  let ?F = "nat (field_alloc_size lattice)"
  let ?I = "nat (sint (index_list ! j))"
  let ?c = "take sizeT (drop (j * sizeT) buffer)"
  from assms(2) obtain buf where buf: "fieldbuf st = Some buf"
    and len: "length buf = storage_bytes lay sizeT sreal (field_alloc_size lattice)"
    by (rule allocatedD)
  have sr: "0 < sreal" using assms(1) by (simp add: machine_ranges_def)
  have vj: "valid_index lattice (sint (index_list ! j))"
    using assms(1,3,6) by (rule valid_indices_nth)
  let ?filled = "packed lay sizeT sreal lattice buf index_list @ drop (?L * sizeT) buffer"
  let ?pl = "placed lay sizeT sreal lattice buffer index_list ?L buf"
  let ?st = "st\<lparr>fieldbuf := Some ?pl\<rparr>"
  have lP: "length (packed lay sizeT sreal lattice buf index_list) = ?L * sizeT"
    using assms(1,3) len by (rule length_packed)
  have g1: "gather_elements lay sizeT sreal st buffer index_list lattice = Inr ?filled"
    using assms(1,3) buf len assms(5,4) by (rule gather_closed)
  have g2: "length ?filled = length buffer" using lP assms(5) by simp
  have g3: "drop (?L * sizeT) ?filled = drop (?L * sizeT) buffer" using lP by simp
  have g4: "Inr (take sizeT (drop (j * sizeT) ?filled))
              = field_storage_get lay sizeT sreal st (sint (index_list ! j)) (field_alloc_size lattice)"
    unfolding chunk_packed [OF assms(1,3) len assms(6)] get_allocated [OF assms(1) vj buf len]
    by (rule refl)
  have p1: "place_elements lay sizeT sreal buffer index_list lattice st = Inr ?st"
    using assms(1,3) buf len assms(5,4) by (rule place_closed)
  have "length (take (?L * sizeT) buffer @ rest) = ?L * sizeT + length rest"
    using assms(5) by simp
  then have room': "?L * sizeT \<le> length (take (?L * sizeT) buffer @ rest)" by simp
  have "place_elements lay sizeT sreal (take (?L * sizeT) buffer @ rest) index_list lattice st
          = Inr (st\<lparr>fieldbuf := Some (placed lay sizeT sreal lattice
                  (take (?L * sizeT) buffer @ rest) index_list ?L buf)\<rparr>)"
    using assms(1,3) buf len room' assms(4) by (rule place_closed)
  also have "placed lay sizeT sreal lattice (take (?L * sizeT) buffer @ rest) index_list ?L buf = ?pl"
    using assms(5) by (intro placed_prefix) simp_all
  finally have p2: "place_elements lay sizeT sreal (take (?L * sizeT) buffer @ rest)
                      index_list lattice st = Inr ?st" .
  have "(j + 1) * sizeT \<le> ?L * sizeT"
    using assms(6) by (intro mult_le_mono1) simp
  then have "(j + 1) * sizeT \<le> length buffer" using assms(5) by simp
  then have lc: "length ?c = sizeT" by (rule length_load)
  have lpl: "length ?pl = storage_bytes lay sizeT sreal (field_alloc_size lattice)"
    using assms(1,3) len assms(5) by (rule length_placed) simp
  have fb: "fieldbuf ?st = Some ?pl" by simp
  have gst: "field_storage_get lay sizeT sreal ?st (sint (index_list ! j)) (field_alloc_size lattice)
               = Inr (elem_at lay sizeT sreal ?F ?I ?pl)"
    using assms(1) vj fb lpl by (rule get_allocated)
  have p3: "(\<exists>st1. field_storage_set lay sizeT sreal ?c (sint (index_list ! j))
                       (field_alloc_size lattice) st = Inr st1 \<and>
                  field_storage_get lay sizeT sreal ?st (sint (index_list ! j))
                      (field_alloc_size lattice)
                    = field_storage_get lay sizeT sreal st1 (sint (index_list ! j))
                        (field_alloc_size lattice)) \<and>
            (lay = AoS \<or> sreal dvd sizeT \<longrightarrow>
               field_storage_get lay sizeT sreal ?st (sint (index_list ! j))
                   (field_alloc_size lattice) = Inr ?c)"
    if last: "index_list ! j \<notin> set (drop (Suc j) index_list)"
  proof -
    have e: "elem_at lay sizeT sreal ?F ?I ?pl = kept lay sizeT sreal ?c"
      using assms(1,3) len assms(5) _ _ last by (rule placed_last) (use assms(6) in simp_all)
    from set_effect [OF assms(1,2) vj lc] obtain st1 where
      s1: "field_storage_set lay sizeT sreal ?c (sint (index_list ! j))
             (field_alloc_size lattice) st = Inr st1" and
      s2: "field_storage_get lay sizeT sreal st1 (sint (index_list ! j))
             (field_alloc_size lattice) = Inr (kept lay sizeT sreal ?c)"
      by blast
    have k: "kept lay sizeT sreal ?c = ?c" if "lay = AoS \<or> sreal dvd sizeT"
      using that sr lc by (rule kept_whole)
    show ?thesis using gst e s1 s2 k by auto
  qed
  show ?thesis using g1 g2 g3 g4 p1 p2 p3 by blast
qed

theorem gather_place_keep_index_order_witness:
  "\<exists>filled st'.
     gather_elements SoA 4 2 \<lparr>fieldbuf = Some (map Byte [1, 2, 3, 4, 5, 6, 7, 8])\<rparr>
       (map Byte [11, 12, 13, 14, 15, 16, 17, 18, 19]) [1, 0] \<lparr>field_alloc_size = 2\<rparr>
       = Inr filled \<and>
     length filled = 9 \<and>
     take 4 filled = map Byte [3, 4, 7, 8] \<and>
     place_elements SoA 4 2 (map Byte [11, 12, 13, 14, 15, 16, 17, 18, 19]) [1, 0]
       \<lparr>field_alloc_size = 2\<rparr> \<lparr>fieldbuf = Some (map Byte [1, 2, 3, 4, 5, 6, 7, 8])\<rparr>
       = Inr st' \<and>
     field_storage_get SoA 4 2 st' 1 2 = Inr (map Byte [11, 12, 13, 14])"
proof -
  let ?lat = "\<lparr>field_alloc_size = 2\<rparr>"
  let ?st = "\<lparr>fieldbuf = Some (map Byte [1, 2, 3, 4, 5, 6, 7, 8])\<rparr>"
  let ?buffer = "map Byte [11, 12, 13, 14, 15, 16, 17, 18, 19]"
  have h1: "machine_ranges SoA 4 2 ?lat"
    by (simp add: machine_ranges_def t_elements_def INT_MAX_def)
  have h2: "allocated SoA 4 2 ?lat ?st"
    by (simp add: allocated_def storage_bytes_def t_elements_def)
  have h3: "valid_indices ?lat [1, 0]" by (simp add: valid_indices_def)
  have h4: "int (length [1 :: 32 word, 0]) \<le> INT_MAX" by (simp add: INT_MAX_def)
  have h5: "length [1 :: 32 word, 0] * 4 \<le> length ?buffer" by simp
  have h6: "0 < length [1 :: 32 word, 0]" by simp
  have g: "field_storage_get SoA 4 2 ?st 1 2 = Inr (map Byte [3, 4, 7, 8])"
    by (simp add: field_storage_get_def get_soa_def get_soa_body_def soa_index_def
        int_result_def INT_MAX_def INT_MIN_def load_at_def store_at_def t_elements_def
        for_loop.simps)
  show ?thesis
    using gather_place_keep_index_order [OF h1 h2 h3 h4 h5 h6, of "[]"] g
    by auto
qed

section \<open>Buffers of another size\<close>

lemma short_buffer_position:
  fixes L sizeT n :: nat
  assumes "n < L * sizeT"
  shows "n div sizeT < L" and "\<not> (n div sizeT + 1) * sizeT \<le> n"
    and "\<And>k. k < n div sizeT \<Longrightarrow> (k + 1) * sizeT \<le> n"
proof -
  have sz: "0 < sizeT" using assms by (cases sizeT) simp_all
  show "n div sizeT < L" using assms sz by (simp add: less_mult_imp_div_less)
  have "n < n div sizeT * sizeT + sizeT"
    using sz by (metis add.commute mod_less_divisor div_mult_mod_eq add_less_cancel_left mult.commute)
  then show "\<not> (n div sizeT + 1) * sizeT \<le> n" by simp
  fix k assume "k < n div sizeT"
  then have "k + 1 \<le> n div sizeT" by simp
  then have "(k + 1) * sizeT \<le> n div sizeT * sizeT" by (rule mult_le_mono1)
  also have "\<dots> \<le> n" by simp
  finally show "(k + 1) * sizeT \<le> n" .
qed

lemma gather_short:
  assumes mr: "machine_ranges lay sizeT sreal lattice" and vs: "valid_indices lattice index_list"
    and al: "allocated lay sizeT sreal lattice st"
    and short: "length buffer < length index_list * sizeT"
    and n: "int (length index_list) \<le> INT_MAX"
  shows "gather_elements lay sizeT sreal st buffer index_list lattice = Inl Undefined_behaviour"
proof -
  let ?m = "length buffer div sizeT"
  note pos = short_buffer_position [OF short]
  have "for_loop 0 (length index_list) (gather_body lay sizeT sreal st index_list lattice) buffer
          = Inl Undefined_behaviour"
  proof (rule for_loop_fault [where m = ?m and I = "\<lambda>k (B :: memval list). length B = length buffer"])
    show "int (length index_list) \<le> INT_MAX" by fact
    show "0 \<le> ?m" by simp
    show "?m < length index_list" by (rule pos(1))
    show "length buffer = length buffer" by simp
  next
    fix k and B :: "memval list" assume k: "k < ?m" and lB: "length B = length buffer"
    then have kl: "k < length index_list" using pos(1) by simp
    have vi: "valid_index lattice (sint (index_list ! k))" using mr vs kl by (rule valid_indices_nth)
    from get_returns [OF mr al vi] obtain w where
      w: "field_storage_get lay sizeT sreal st (sint (index_list ! k)) (field_alloc_size lattice)
            = Inr w" and lw: "length w = sizeT" by blast
    have inb: "(k + 1) * sizeT \<le> length B" using pos(3) [OF k] lB by simp
    have lw': "sizeT \<le> length w" using lw by simp
    have "gather_body lay sizeT sreal st index_list lattice k B
            = Inr (take (k * sizeT) B @ take sizeT w @ drop ((k + 1) * sizeT) B)"
      using store_at_nat [OF inb, of w] by (simp add: gather_body_def w)
    moreover have "length (take (k * sizeT) B @ take sizeT w @ drop ((k + 1) * sizeT) B)
                     = length buffer"
      using length_poke [OF inb lw'] lB by simp
    ultimately show "\<exists>s'. gather_body lay sizeT sreal st index_list lattice k B = Inr s' \<and>
                       length s' = length buffer" by simp
  next
    fix B :: "memval list" assume lB: "length B = length buffer"
    have vi: "valid_index lattice (sint (index_list ! ?m))"
      using mr vs pos(1) by (rule valid_indices_nth)
    from get_returns [OF mr al vi] obtain w where
      w: "field_storage_get lay sizeT sreal st (sint (index_list ! ?m)) (field_alloc_size lattice)
            = Inr w" by blast
    have "store_at B sizeT (int ?m) w = Inl Undefined_behaviour"
      using pos(2) lB by (simp add: store_at_def)
    then show "gather_body lay sizeT sreal st index_list lattice ?m B = Inl Undefined_behaviour"
      by (simp add: gather_body_def w)
  qed
  then show ?thesis by (simp add: gather_elements_def)
qed

lemma place_short:
  assumes mr: "machine_ranges lay sizeT sreal lattice" and vs: "valid_indices lattice index_list"
    and al: "allocated lay sizeT sreal lattice st"
    and short: "length buffer < length index_list * sizeT"
    and n: "int (length index_list) \<le> INT_MAX"
  shows "place_elements lay sizeT sreal buffer index_list lattice st = Inl Undefined_behaviour"
proof -
  let ?m = "length buffer div sizeT"
  note pos = short_buffer_position [OF short]
  have "for_loop 0 (length index_list) (place_body lay sizeT sreal buffer index_list lattice) st
          = Inl Undefined_behaviour"
  proof (rule for_loop_fault [where m = ?m and I = "\<lambda>k s. allocated lay sizeT sreal lattice s"])
    show "int (length index_list) \<le> INT_MAX" by fact
    show "0 \<le> ?m" by simp
    show "?m < length index_list" by (rule pos(1))
    show "allocated lay sizeT sreal lattice st" by fact
  next
    fix k s assume k: "k < ?m" and as: "allocated lay sizeT sreal lattice s"
    then have kl: "k < length index_list" using pos(1) by simp
    have vi: "valid_index lattice (sint (index_list ! k))" using mr vs kl by (rule valid_indices_nth)
    have inb: "(k + 1) * sizeT \<le> length buffer" using pos(3) [OF k] by simp
    have ld: "load_at buffer sizeT (int k) = Inr (take sizeT (drop (k * sizeT) buffer))"
      using inb by (rule load_at_nat)
    have lc: "length (take sizeT (drop (k * sizeT) buffer)) = sizeT" using inb by (rule length_load)
    from set_effect [OF mr as vi lc] obtain s' where
      "field_storage_set lay sizeT sreal (take sizeT (drop (k * sizeT) buffer))
         (sint (index_list ! k)) (field_alloc_size lattice) s = Inr s'"
      "allocated lay sizeT sreal lattice s'" by blast
    then show "\<exists>s'. place_body lay sizeT sreal buffer index_list lattice k s = Inr s' \<and>
                 allocated lay sizeT sreal lattice s'"
      by (simp add: place_body_def ld)
  next
    fix s assume "allocated lay sizeT sreal lattice s"
    have "load_at buffer sizeT (int ?m) = Inl Undefined_behaviour"
      using pos(2) by (simp add: load_at_def)
    then show "place_body lay sizeT sreal buffer index_list lattice ?m s = Inl Undefined_behaviour"
      by (simp add: place_body_def)
  qed
  then show ?thesis by (simp add: place_elements_def)
qed


text \<open>
  Claim C6, as amended.  \<^verbatim>\<open>gather_elements\<close> and \<^verbatim>\<open>place_elements\<close> receive the byte
  buffer as a bare pointer and compare no sizes.  On an allocated storage with a valid
  index list of length \<open>L\<close> they transfer \<open>L * sizeof(T)\<close> bytes whatever the size of
  the buffer: a buffer with more bytes is accepted, and the calls return with the
  excess neither written nor read; a buffer with fewer bytes is accessed past its end,
  which is undefined behaviour and neither a failed assertion nor an exit.
\<close>

theorem gather_place_compare_no_sizes:
  assumes "machine_ranges lay sizeT sreal lattice"
    and "allocated lay sizeT sreal lattice st"
    and "valid_indices lattice index_list"
    and "int (length index_list) \<le> INT_MAX"
  shows "(length index_list * sizeT \<le> length buffer \<longrightarrow>
            (\<exists>filled. gather_elements lay sizeT sreal st buffer index_list lattice = Inr filled \<and>
               length filled = length buffer \<and>
               drop (length index_list * sizeT) filled
                 = drop (length index_list * sizeT) buffer) \<and>
            (\<exists>st'. place_elements lay sizeT sreal buffer index_list lattice st = Inr st' \<and>
               place_elements lay sizeT sreal (take (length index_list * sizeT) buffer)
                 index_list lattice st = Inr st')) \<and>
         (length buffer < length index_list * sizeT \<longrightarrow>
            gather_elements lay sizeT sreal st buffer index_list lattice
              = Inl Undefined_behaviour \<and>
            place_elements lay sizeT sreal buffer index_list lattice st
              = Inl Undefined_behaviour)"
proof (intro conjI impI)
  let ?L = "length index_list"
  from assms(2) obtain buf where buf: "fieldbuf st = Some buf"
    and len: "length buf = storage_bytes lay sizeT sreal (field_alloc_size lattice)"
    by (rule allocatedD)
  assume room: "?L * sizeT \<le> length buffer"
  let ?filled = "packed lay sizeT sreal lattice buf index_list @ drop (?L * sizeT) buffer"
  have lP: "length (packed lay sizeT sreal lattice buf index_list) = ?L * sizeT"
    using assms(1,3) len by (rule length_packed)
  have g1: "gather_elements lay sizeT sreal st buffer index_list lattice = Inr ?filled"
    using assms(1,3) buf len room assms(4) by (rule gather_closed)
  have g2: "length ?filled = length buffer" using lP room by simp
  have g3: "drop (?L * sizeT) ?filled = drop (?L * sizeT) buffer" using lP by simp
  show "\<exists>filled. gather_elements lay sizeT sreal st buffer index_list lattice = Inr filled \<and>
          length filled = length buffer \<and>
          drop (?L * sizeT) filled = drop (?L * sizeT) buffer"
    using g1 g2 g3 by blast
  let ?pl = "placed lay sizeT sreal lattice buffer index_list ?L buf"
  have p1: "place_elements lay sizeT sreal buffer index_list lattice st
              = Inr (st\<lparr>fieldbuf := Some ?pl\<rparr>)"
    using assms(1,3) buf len room assms(4) by (rule place_closed)
  have room': "?L * sizeT \<le> length (take (?L * sizeT) buffer)" using room by simp
  have "place_elements lay sizeT sreal (take (?L * sizeT) buffer) index_list lattice st
          = Inr (st\<lparr>fieldbuf := Some (placed lay sizeT sreal lattice
                  (take (?L * sizeT) buffer) index_list ?L buf)\<rparr>)"
    using assms(1,3) buf len room' assms(4) by (rule place_closed)
  also have "placed lay sizeT sreal lattice (take (?L * sizeT) buffer) index_list ?L buf = ?pl"
    using placed_prefix [OF order_refl room, of lay sreal lattice "[]" index_list buf] by simp
  finally show "\<exists>st'. place_elements lay sizeT sreal buffer index_list lattice st = Inr st' \<and>
                  place_elements lay sizeT sreal (take (?L * sizeT) buffer)
                    index_list lattice st = Inr st'"
    using p1 by blast
next
  assume short: "length buffer < length index_list * sizeT"
  show "gather_elements lay sizeT sreal st buffer index_list lattice = Inl Undefined_behaviour"
    using assms(1,3,2) short assms(4) by (rule gather_short)
  show "place_elements lay sizeT sreal buffer index_list lattice st = Inl Undefined_behaviour"
    using assms(1,3,2) short assms(4) by (rule place_short)
qed

theorem gather_place_compare_no_sizes_witness:
  "(\<exists>filled. gather_elements AoS 2 4 \<lparr>fieldbuf = Some (map Byte [1, 2, 3, 4])\<rparr>
                (replicate 5 Undef) [1] \<lparr>field_alloc_size = 2\<rparr> = Inr filled \<and>
             length filled = 5) \<and>
   (\<exists>st'. place_elements AoS 2 4 (replicate 5 Undef) [1] \<lparr>field_alloc_size = 2\<rparr>
             \<lparr>fieldbuf = Some (map Byte [1, 2, 3, 4])\<rparr> = Inr st') \<and>
   gather_elements AoS 2 4 \<lparr>fieldbuf = Some (map Byte [1, 2, 3, 4])\<rparr>
     [Undef] [1] \<lparr>field_alloc_size = 2\<rparr> = Inl Undefined_behaviour \<and>
   place_elements AoS 2 4 [Undef] [1] \<lparr>field_alloc_size = 2\<rparr>
     \<lparr>fieldbuf = Some (map Byte [1, 2, 3, 4])\<rparr> = Inl Undefined_behaviour"
proof -
  let ?lat = "\<lparr>field_alloc_size = 2\<rparr>"
  let ?st = "\<lparr>fieldbuf = Some (map Byte [1, 2, 3, 4])\<rparr>"
  have h1: "machine_ranges AoS 2 4 ?lat" by (simp add: machine_ranges_def INT_MAX_def)
  have h2: "allocated AoS 2 4 ?lat ?st" by (simp add: allocated_def storage_bytes_def)
  have h3: "valid_indices ?lat [1]" by (simp add: valid_indices_def)
  have h4: "int (length [1 :: 32 word]) \<le> INT_MAX" by (simp add: INT_MAX_def)
  show ?thesis
    using gather_place_compare_no_sizes [OF h1 h2 h3 h4, of "replicate 5 Undef"]
      gather_place_compare_no_sizes [OF h1 h2 h3 h4, of "[Undef]"]
    by auto
qed

text \<open>
  Claim C6 as stated fails: a buffer of three bytes for one element of one byte is not
  of the expected size, yet both calls return normally; and with an empty buffer they
  run past its end instead of stopping at a check.
\<close>

theorem gather_place_size_mismatch_counterexample:
  "length [Undef, Undef, Undef] \<noteq> length [0 :: 32 word] * 1 \<and>
   gather_elements AoS 1 1 \<lparr>fieldbuf = Some [Byte 7]\<rparr> [Undef, Undef, Undef] [0]
     \<lparr>field_alloc_size = 1\<rparr> = Inr [Byte 7, Undef, Undef] \<and>
   place_elements AoS 1 1 [Byte 5, Byte 6, Byte 7] [0] \<lparr>field_alloc_size = 1\<rparr>
     \<lparr>fieldbuf = Some [Undef]\<rparr> = Inr \<lparr>fieldbuf = Some [Byte 5]\<rparr> \<and>
   gather_elements AoS 1 1 \<lparr>fieldbuf = Some [Byte 7]\<rparr> [] [0] \<lparr>field_alloc_size = 1\<rparr>
     = Inl Undefined_behaviour \<and>
   place_elements AoS 1 1 [] [0] \<lparr>field_alloc_size = 1\<rparr> \<lparr>fieldbuf = Some [Undef]\<rparr>
     = Inl Undefined_behaviour"
  by (simp add: gather_elements_def gather_body_def place_elements_def place_body_def
      field_storage_set_def field_storage_get_def set_aos_def get_aos_def
      int_result_def INT_MAX_def INT_MIN_def load_at_def store_at_def for_loop.simps)

section \<open>Fields over two decompositions\<close>

lemma soa_kept_idem: "soa_kept sizeT sreal (soa_kept sizeT sreal v) = soa_kept sizeT sreal v"
  by (rule nth_equalityI) (simp_all add: soa_kept_def)

lemma kept_idem: "kept lay sizeT sreal (kept lay sizeT sreal v) = kept lay sizeT sreal v"
  by (cases lay) (simp_all add: kept_def soa_kept_idem)

lemma length_kept: "length v = sizeT \<Longrightarrow> length (kept lay sizeT sreal v) = sizeT"
  by (cases lay) (simp_all add: kept_def soa_kept_def)

lemma valid_site_index:
  assumes fa: "field_allocated lay sizeT sreal d stores" and vs: "valid_site d c"
  shows "machine_ranges lay sizeT sreal (part_lattice d (owner d c))"
    and "allocated lay sizeT sreal (part_lattice d (owner d c)) (stores ! owner d c)"
    and "valid_index (part_lattice d (owner d c)) (sint (local_index d c))"
proof -
  have p: "owner d c < n_parts d" using vs by (simp add: valid_site_def)
  show mr: "machine_ranges lay sizeT sreal (part_lattice d (owner d c))"
    using fa p by (simp add: field_allocated_def)
  show "allocated lay sizeT sreal (part_lattice d (owner d c)) (stores ! owner d c)"
    using fa p by (simp add: field_allocated_def)
  have lt: "uint (local_index d c) < field_alloc_size (part_lattice d (owner d c))"
    using vs by (simp add: valid_site_def)
  have "field_alloc_size (part_lattice d (owner d c)) \<le> INT_MAX"
    using mr by (simp add: machine_ranges_def)
  then have "uint (local_index d c) \<le> INT_MAX" using lt by simp
  then have "sint (local_index d c) = uint (local_index d c)" by (rule sint_index)
  then show "valid_index (part_lattice d (owner d c)) (sint (local_index d c))"
    using lt by (simp add: valid_index_def)
qed

lemma store_one_site:
  assumes fa: "field_allocated lay sizeT sreal d stores" and vs: "valid_site d c"
    and lv: "length v = sizeT"
  shows "\<exists>st'. field_storage_set lay sizeT sreal v (sint (local_index d c))
                  (field_alloc_size (part_lattice d (owner d c))) (stores ! owner d c) = Inr st' \<and>
           field_allocated lay sizeT sreal d (stores[owner d c := st']) \<and>
           value_at lay sizeT sreal d (stores[owner d c := st']) c = Inr (kept lay sizeT sreal v) \<and>
           (\<forall>c'. valid_site d c' \<and> site_slot d c' \<noteq> site_slot d c \<longrightarrow>
              value_at lay sizeT sreal d (stores[owner d c := st']) c'
                = value_at lay sizeT sreal d stores c')"
proof -
  note s = valid_site_index [OF fa vs]
  have p: "owner d c < n_parts d" using vs by (simp add: valid_site_def)
  have ls: "length stores = n_parts d" using fa by (simp add: field_allocated_def)
  from set_effect [OF s(1,2,3) lv] obtain st' where
    1: "field_storage_set lay sizeT sreal v (sint (local_index d c))
          (field_alloc_size (part_lattice d (owner d c))) (stores ! owner d c) = Inr st'" and
    2: "allocated lay sizeT sreal (part_lattice d (owner d c)) st'" and
    3: "field_storage_get lay sizeT sreal st' (sint (local_index d c))
          (field_alloc_size (part_lattice d (owner d c))) = Inr (kept lay sizeT sreal v)" and
    4: "\<And>j. valid_index (part_lattice d (owner d c)) j \<Longrightarrow> j \<noteq> sint (local_index d c) \<Longrightarrow>
          field_storage_get lay sizeT sreal st' j (field_alloc_size (part_lattice d (owner d c)))
            = field_storage_get lay sizeT sreal (stores ! owner d c) j
                (field_alloc_size (part_lattice d (owner d c)))"
    by blast
  let ?stores = "stores[owner d c := st']"
  have fa': "field_allocated lay sizeT sreal d ?stores"
    unfolding field_allocated_def
  proof (intro conjI allI impI)
    show "length ?stores = n_parts d" using ls by simp
    fix q assume q: "q < n_parts d"
    show "machine_ranges lay sizeT sreal (part_lattice d q)"
      using fa q by (simp add: field_allocated_def)
    show "allocated lay sizeT sreal (part_lattice d q) (?stores ! q)"
    proof (cases "q = owner d c")
      case True
      then show ?thesis using 2 p ls by simp
    next
      case False
      then show ?thesis using fa q by (simp add: field_allocated_def)
    qed
  qed
  have same: "value_at lay sizeT sreal d ?stores c = Inr (kept lay sizeT sreal v)"
    using 3 p ls by (simp add: value_at_def)
  have other: "value_at lay sizeT sreal d ?stores c' = value_at lay sizeT sreal d stores c'"
    if vc': "valid_site d c'" and ne: "site_slot d c' \<noteq> site_slot d c" for c'
  proof (cases "owner d c' = owner d c")
    case True
    then have "local_index d c' \<noteq> local_index d c" using ne by (simp add: site_slot_def)
    then have n: "sint (local_index d c') \<noteq> sint (local_index d c)" by (rule sint_neq)
    have "valid_index (part_lattice d (owner d c)) (sint (local_index d c'))"
      using valid_site_index(3) [OF fa vc'] True by simp
    then show ?thesis using 4 n True p ls by (simp add: value_at_def)
  next
    case False
    then show ?thesis by (simp add: value_at_def)
  qed
  show ?thesis using 1 fa' same other by blast
qed

lemma store_sites_frame:
  assumes "field_allocated lay sizeT sreal d stores"
    and "\<forall>(c, v) \<in> set pairs. valid_site d c \<and> length v = sizeT"
  shows "\<exists>res. store_sites lay sizeT sreal d pairs stores = Inr res \<and>
           field_allocated lay sizeT sreal d res \<and>
           (\<forall>c'. valid_site d c' \<and> site_slot d c' \<notin> site_slot d ` fst ` set pairs \<longrightarrow>
              value_at lay sizeT sreal d res c' = value_at lay sizeT sreal d stores c')"
  using assms
proof (induction pairs arbitrary: stores)
  case Nil
  then show ?case by simp
next
  case (Cons a pairs)
  obtain c v where a: "a = (c, v)" by (cases a)
  have vs: "valid_site d c" and lv: "length v = sizeT" using Cons.prems(2) a by simp_all
  from store_one_site [OF Cons.prems(1) vs lv] obtain st' where
    1: "field_storage_set lay sizeT sreal v (sint (local_index d c))
          (field_alloc_size (part_lattice d (owner d c))) (stores ! owner d c) = Inr st'" and
    2: "field_allocated lay sizeT sreal d (stores[owner d c := st'])" and
    4: "\<And>c'. valid_site d c' \<Longrightarrow> site_slot d c' \<noteq> site_slot d c \<Longrightarrow>
          value_at lay sizeT sreal d (stores[owner d c := st']) c'
            = value_at lay sizeT sreal d stores c'"
    by blast
  have rest: "\<forall>(c, v) \<in> set pairs. valid_site d c \<and> length v = sizeT"
    using Cons.prems(2) by simp
  from Cons.IH [OF 2 rest] obtain res where
    5: "store_sites lay sizeT sreal d pairs (stores[owner d c := st']) = Inr res" and
    6: "field_allocated lay sizeT sreal d res" and
    7: "\<And>c'. valid_site d c' \<Longrightarrow> site_slot d c' \<notin> site_slot d ` fst ` set pairs \<Longrightarrow>
          value_at lay sizeT sreal d res c'
            = value_at lay sizeT sreal d (stores[owner d c := st']) c'"
    by blast
  have "store_sites lay sizeT sreal d (a # pairs) stores = Inr res"
    using a 1 5 by simp
  moreover have "value_at lay sizeT sreal d res c' = value_at lay sizeT sreal d stores c'"
    if "valid_site d c'" and "site_slot d c' \<notin> site_slot d ` fst ` set (a # pairs)" for c'
    using that a 4 [of c'] 7 [of c'] by simp
  ultimately show ?case using 6 by blast
qed

lemma store_sites_values:
  assumes "field_allocated lay sizeT sreal d stores"
    and "\<forall>(c, v) \<in> set pairs. valid_site d c \<and> length v = sizeT"
    and "distinct (map (\<lambda>a. site_slot d (fst a)) pairs)"
  shows "\<exists>res. store_sites lay sizeT sreal d pairs stores = Inr res \<and>
           field_allocated lay sizeT sreal d res \<and>
           (\<forall>(c, v) \<in> set pairs. value_at lay sizeT sreal d res c = Inr (kept lay sizeT sreal v))"
  using assms
proof (induction pairs arbitrary: stores)
  case Nil
  then show ?case by simp
next
  case (Cons a pairs)
  obtain c v where a: "a = (c, v)" by (cases a)
  have vs: "valid_site d c" and lv: "length v = sizeT" using Cons.prems(2) a by simp_all
  from store_one_site [OF Cons.prems(1) vs lv] obtain st' where
    1: "field_storage_set lay sizeT sreal v (sint (local_index d c))
          (field_alloc_size (part_lattice d (owner d c))) (stores ! owner d c) = Inr st'" and
    2: "field_allocated lay sizeT sreal d (stores[owner d c := st'])" and
    3: "value_at lay sizeT sreal d (stores[owner d c := st']) c = Inr (kept lay sizeT sreal v)"
    by blast
  have rest: "\<forall>(c, v) \<in> set pairs. valid_site d c \<and> length v = sizeT"
    using Cons.prems(2) by simp
  have dist: "distinct (map (\<lambda>a. site_slot d (fst a)) pairs)"
    and fresh: "site_slot d c \<notin> site_slot d ` fst ` set pairs"
    using Cons.prems(3) a by (auto simp add: image_iff)
  from Cons.IH [OF 2 rest dist] obtain res where
    5: "store_sites lay sizeT sreal d pairs (stores[owner d c := st']) = Inr res" and
    6: "field_allocated lay sizeT sreal d res" and
    7: "\<forall>(c, v) \<in> set pairs. value_at lay sizeT sreal d res c = Inr (kept lay sizeT sreal v)"
    by blast
  from store_sites_frame [OF 2 rest] 5 have
    "value_at lay sizeT sreal d res c = value_at lay sizeT sreal d (stores[owner d c := st']) c"
    using vs fresh by auto
  then have 8: "value_at lay sizeT sreal d res c = Inr (kept lay sizeT sreal v)" using 3 by simp
  have "store_sites lay sizeT sreal d (a # pairs) stores = Inr res"
    using a 1 5 by simp
  then show ?case using 6 7 8 a by auto
qed

lemma read_sites_values:
  assumes "\<forall>c \<in> set sites. value_at lay sizeT sreal d stores c = Inr (g c)"
  shows "read_sites lay sizeT sreal d sites stores = Inr (map g sites)"
  using assms by (induction sites) simp_all


lemma valid_decomposition_pairs:
  assumes "valid_decomposition sites d" and "\<forall>c \<in> set sites. length (g c) = sizeT"
  shows "\<forall>(c, v) \<in> set (map (\<lambda>c. (c, g c)) sites). valid_site d c \<and> length v = sizeT"
    and "distinct (map (\<lambda>a. site_slot d (fst a)) (map (\<lambda>c. (c, g c)) sites))"
  using assms by (auto simp add: valid_decomposition_def list_all_iff comp_def)

lemma field_values_after_store:
  assumes vd: "valid_decomposition sites d"
    and fa: "field_allocated lay sizeT sreal d stores"
    and lg: "\<forall>c \<in> set sites. length (g c) = sizeT"
  shows "\<exists>res. store_sites lay sizeT sreal d (map (\<lambda>c. (c, g c)) sites) stores = Inr res \<and>
           field_allocated lay sizeT sreal d res \<and>
           (\<forall>c \<in> set sites. value_at lay sizeT sreal d res c = Inr (kept lay sizeT sreal (g c)))"
  using store_sites_values [OF fa valid_decomposition_pairs [OF vd lg]] by auto

text \<open>
  Claim C2, for the field storage under a partition that meets its contract.  Let two
  decompositions of the same sites be given, with any numbers of partitions, and a
  field whose value at a site is a function \<open>f\<close> of the coordinate.  Writing the field
  site by site under either decomposition ends normally, and the logical value at
  every coordinate is the same under both.  Reading the field of the first
  decomposition in the canonical order of the sites and writing that sequence under
  the second gives at every coordinate the logical value it had under the first.
  The value is \<open>f\<close> of the coordinate in the array-of-structures layout and wherever
  \<open>sizeof(T)\<close> is a multiple of \<open>sizeof(real_t)\<close>.
\<close>

theorem field_values_independent_of_partition:
  assumes "valid_decomposition sites d1"
    and "valid_decomposition sites d2"
    and "field_allocated lay sizeT sreal d1 stores1"
    and "field_allocated lay sizeT sreal d2 stores2"
    and "field_allocated lay sizeT sreal d2 stores3"
    and "\<forall>c. length (f c) = sizeT"
  shows "\<exists>res1 res2 data loaded.
           store_sites lay sizeT sreal d1 (map (\<lambda>c. (c, f c)) sites) stores1 = Inr res1 \<and>
           store_sites lay sizeT sreal d2 (map (\<lambda>c. (c, f c)) sites) stores2 = Inr res2 \<and>
           (\<forall>c \<in> set sites.
              value_at lay sizeT sreal d1 res1 c = value_at lay sizeT sreal d2 res2 c) \<and>
           read_sites lay sizeT sreal d1 sites res1 = Inr data \<and>
           store_sites lay sizeT sreal d2 (zip sites data) stores3 = Inr loaded \<and>
           (\<forall>c \<in> set sites.
              value_at lay sizeT sreal d2 loaded c = value_at lay sizeT sreal d1 res1 c) \<and>
           (lay = AoS \<or> sreal dvd sizeT \<longrightarrow>
              (\<forall>c \<in> set sites. value_at lay sizeT sreal d1 res1 c = Inr (f c)))"
proof -
  let ?k = "\<lambda>c. kept lay sizeT sreal (f c)"
  have lf: "\<forall>c \<in> set sites. length (f c) = sizeT" using assms(6) by simp
  have lk: "\<forall>c \<in> set sites. length (?k c) = sizeT" using assms(6) by (simp add: length_kept)
  from field_values_after_store [OF assms(1,3) lf] obtain res1 where
    a1: "store_sites lay sizeT sreal d1 (map (\<lambda>c. (c, f c)) sites) stores1 = Inr res1" and
    a2: "\<forall>c \<in> set sites. value_at lay sizeT sreal d1 res1 c = Inr (?k c)" by blast
  from field_values_after_store [OF assms(2,4) lf] obtain res2 where
    b1: "store_sites lay sizeT sreal d2 (map (\<lambda>c. (c, f c)) sites) stores2 = Inr res2" and
    b2: "\<forall>c \<in> set sites. value_at lay sizeT sreal d2 res2 c = Inr (?k c)" by blast
  have r: "read_sites lay sizeT sreal d1 sites res1 = Inr (map ?k sites)"
    using a2 by (rule read_sites_values)
  have z: "zip sites (map ?k sites) = map (\<lambda>c. (c, ?k c)) sites"
    by (induction sites) simp_all
  from field_values_after_store [OF assms(2,5) lk] obtain loaded where
    c1: "store_sites lay sizeT sreal d2 (map (\<lambda>c. (c, ?k c)) sites) stores3 = Inr loaded" and
    c2: "\<forall>c \<in> set sites. value_at lay sizeT sreal d2 loaded c
           = Inr (kept lay sizeT sreal (?k c))" by blast
  have sr: "0 < sreal" if "c \<in> set sites" for c
  proof -
    have "valid_site d1 c" using assms(1) that by (simp add: valid_decomposition_def list_all_iff)
    then have "machine_ranges lay sizeT sreal (part_lattice d1 (owner d1 c))"
      using assms(3) by (simp add: field_allocated_def valid_site_def)
    then show ?thesis by (simp add: machine_ranges_def)
  qed
  have w: "\<forall>c \<in> set sites. value_at lay sizeT sreal d1 res1 c = Inr (f c)"
    if "lay = AoS \<or> sreal dvd sizeT"
  proof
    fix c assume c: "c \<in> set sites"
    have "?k c = f c" using that sr [OF c] assms(6) by (simp add: kept_whole)
    then show "value_at lay sizeT sreal d1 res1 c = Inr (f c)" using a2 c by simp
  qed
  have ab: "\<forall>c \<in> set sites.
              value_at lay sizeT sreal d1 res1 c = value_at lay sizeT sreal d2 res2 c"
    using a2 b2 by simp
  have cl: "\<forall>c \<in> set sites.
              value_at lay sizeT sreal d2 loaded c = value_at lay sizeT sreal d1 res1 c"
    using a2 c2 by (simp add: kept_idem)
  have c1': "store_sites lay sizeT sreal d2 (zip sites (map ?k sites)) stores3 = Inr loaded"
    using c1 z by simp
  show ?thesis using a1 b1 ab r c1' cl w by blast
qed


theorem field_values_independent_of_partition_witness:
  "\<exists>res1 res2.
     store_sites SoA 2 1
       \<lparr>n_parts = 1, owner = (\<lambda>c. 0), local_index = (\<lambda>c. word_of_int (hd c)),
          part_lattice = (\<lambda>p. \<lparr>field_alloc_size = 4\<rparr>)\<rparr>
       (map (\<lambda>c. (c, [Byte (word_of_int (hd c)), Byte 0])) [[0], [1], [2], [3]])
       [\<lparr>fieldbuf = Some (replicate 8 Undef)\<rparr>] = Inr res1 \<and>
     store_sites SoA 2 1
       \<lparr>n_parts = 2, owner = (\<lambda>c. nat (hd c div 2)),
          local_index = (\<lambda>c. word_of_int (hd c mod 2)),
          part_lattice = (\<lambda>p. \<lparr>field_alloc_size = 3\<rparr>)\<rparr>
       (map (\<lambda>c. (c, [Byte (word_of_int (hd c)), Byte 0])) [[0], [1], [2], [3]])
       [\<lparr>fieldbuf = Some (replicate 6 Undef)\<rparr>, \<lparr>fieldbuf = Some (replicate 6 Undef)\<rparr>]
       = Inr res2 \<and>
     value_at SoA 2 1
       \<lparr>n_parts = 1, owner = (\<lambda>c. 0), local_index = (\<lambda>c. word_of_int (hd c)),
          part_lattice = (\<lambda>p. \<lparr>field_alloc_size = 4\<rparr>)\<rparr> res1 [3]
       = value_at SoA 2 1
           \<lparr>n_parts = 2, owner = (\<lambda>c. nat (hd c div 2)),
              local_index = (\<lambda>c. word_of_int (hd c mod 2)),
              part_lattice = (\<lambda>p. \<lparr>field_alloc_size = 3\<rparr>)\<rparr> res2 [3] \<and>
     value_at SoA 2 1
       \<lparr>n_parts = 1, owner = (\<lambda>c. 0), local_index = (\<lambda>c. word_of_int (hd c)),
          part_lattice = (\<lambda>p. \<lparr>field_alloc_size = 4\<rparr>)\<rparr> res1 [3]
       = Inr [Byte 3, Byte 0]"
proof -
  let ?sites = "[[0], [1], [2], [3 :: int]]"
  let ?d1 = "\<lparr>n_parts = 1, owner = (\<lambda>c. 0), local_index = (\<lambda>c. word_of_int (hd c)),
               part_lattice = (\<lambda>p. \<lparr>field_alloc_size = 4\<rparr>)\<rparr>"
  let ?d2 = "\<lparr>n_parts = 2, owner = (\<lambda>c. nat (hd c div 2)),
               local_index = (\<lambda>c. word_of_int (hd c mod 2)),
               part_lattice = (\<lambda>p. \<lparr>field_alloc_size = 3\<rparr>)\<rparr>"
  let ?s1 = "[\<lparr>fieldbuf = Some (replicate 8 Undef)\<rparr>]"
  let ?s2 = "[\<lparr>fieldbuf = Some (replicate 6 Undef)\<rparr>, \<lparr>fieldbuf = Some (replicate 6 Undef)\<rparr>]"
  let ?f = "\<lambda>c :: coordinate. [Byte (word_of_int (hd c)), Byte 0]"
  have h1: "valid_decomposition ?sites ?d1"
    by (simp add: valid_decomposition_def valid_site_def site_slot_def)
  have h2: "valid_decomposition ?sites ?d2"
    by (simp add: valid_decomposition_def valid_site_def site_slot_def)
  have h3: "field_allocated SoA 2 1 ?d1 ?s1"
    by (simp add: field_allocated_def machine_ranges_def allocated_def storage_bytes_def
        t_elements_def INT_MAX_def)
  have h4: "field_allocated SoA 2 1 ?d2 ?s2"
    by (simp add: field_allocated_def machine_ranges_def allocated_def storage_bytes_def
        t_elements_def INT_MAX_def less_2_cases_iff)
  have h6: "\<forall>c. length (?f c) = 2" by simp
  have h7: "SoA = AoS \<or> (1 :: nat) dvd 2" by simp
  from field_values_independent_of_partition [OF h1 h2 h3 h4 h4 h6] h7
  show ?thesis by fastforce
qed

end
